theory Spec2Isabelle
  imports Main "HOL-Library.AList"
begin

section \<open>wikiwatch: archiving wiki revisions to S3 (src/main.py)\<close>

text \<open>
  A shallow embedding of \<^verbatim>\<open>src/main.py\<close>: the MediaWiki query generator
  \<^verbatim>\<open>mwapi_query\<close>, the S3 helpers and the recursive archiver
  \<^verbatim>\<open>handle_revision\<close>.

  Python values that come out of \<^verbatim>\<open>r.json()\<close> are values of the datatype
  \<open>json\<close>; a Python \<^verbatim>\<open>dict\<close> is an association list in insertion order
  (\<^verbatim>\<open>d[k] = v\<close> is \<open>AList.update\<close>: an existing key keeps its place, a new
  key goes to the end). JSON numbers are Python \<^verbatim>\<open>int\<close>s (unbounded); JSON
  floats are left out of the model. A \<open>char\<close> stands for one code point of a Python
  \<^verbatim>\<open>str\<close>.
\<close>

subsection \<open>JSON values and the Python operations the code applies to them\<close>

datatype json =
    JNull
  | JBool bool
  | JInt int
  | JStr string
  | JArr "json list"
  | JObj "(string \<times> json) list"

type_synonym dict = "(string \<times> json) list"

datatype py_error =
    AssertionError
  | TypeError
  | KeyError
  | IndexError
  | ValueError
  | AttributeError
  | StopIteration
  | RecursionError
  | WikiError json
  | HTTPError nat
  | RequestException
  | JSONDecodeError
  | ClientError string

text \<open>Sequencing of fallible steps: the first exception ends the computation.\<close>

definition and_then :: "py_error + 'a \<Rightarrow> ('a \<Rightarrow> py_error + 'b) \<Rightarrow> py_error + 'b" where
  "and_then m f = (case m of Inl e \<Rightarrow> Inl e | Inr x \<Rightarrow> f x)"

text \<open>\<^verbatim>\<open>assert c\<close> followed by the rest \<open>k\<close>; evaluating \<open>c\<close> may itself raise.\<close>

definition py_assert :: "py_error + bool \<Rightarrow> (py_error + 'a) \<Rightarrow> py_error + 'a" where
  "py_assert c k = (case c of Inl e \<Rightarrow> Inl e | Inr b \<Rightarrow> if b then k else Inl AssertionError)"

text \<open>Python \<^verbatim>\<open>bool\<close> is a subclass of \<^verbatim>\<open>int\<close>: \<^verbatim>\<open>True == 1\<close>.\<close>

fun int_value :: "json \<Rightarrow> int option" where
  "int_value (JInt i) = Some i"
| "int_value (JBool b) = Some (if b then 1 else 0)"
| "int_value _ = None"

text \<open>
  \<^verbatim>\<open>a == b\<close> where at least one side is an \<^verbatim>\<open>int\<close> or \<^verbatim>\<open>bool\<close>, which is the
  case at each comparison of the source (\<^verbatim>\<open>revid == 0\<close>, and the two comparisons
  with \<^verbatim>\<open>pageid\<close> and \<^verbatim>\<open>revid\<close> after both were accepted by the \<^verbatim>\<open>{:08d}\<close>
  format).
\<close>

definition py_eq :: "json \<Rightarrow> json \<Rightarrow> bool" where
  "py_eq a b = (int_value a \<noteq> None \<and> int_value a = int_value b)"

fun is_substr :: "string \<Rightarrow> string \<Rightarrow> bool" where
  "is_substr s [] = (s = [])"
| "is_substr s (c # cs) = (take (length s) (c # cs) = s \<or> is_substr s cs)"

text \<open>\<^verbatim>\<open>s in v\<close> for a string \<open>s\<close>.\<close>

fun py_in :: "string \<Rightarrow> json \<Rightarrow> py_error + bool" where
  "py_in s (JObj kvs) = Inr (s \<in> set (map fst kvs))"
| "py_in s (JArr xs) = Inr (JStr s \<in> set xs)"
| "py_in s (JStr t) = Inr (is_substr s t)"
| "py_in s _ = Inl TypeError"

text \<open>
  The items of a dict in iteration order. Any association list stands for the dict
  \<open>map_of kvs\<close>, with the keys in the order of their first occurrence.
\<close>

definition items :: "dict \<Rightarrow> dict" where
  "items kvs = AList.clearjunk kvs"

text \<open>\<^verbatim>\<open>xs[i]\<close> on a list or string: negative indices count from the end.\<close>

definition seq_index :: "'a list \<Rightarrow> int \<Rightarrow> py_error + 'a" where
  "seq_index xs i =
     (if 0 \<le> i \<and> i < int (length xs) then Inr (xs ! nat i)
      else if i < 0 \<and> - int (length xs) \<le> i then Inr (xs ! nat (int (length xs) + i))
      else Inl IndexError)"

text \<open>
  \<^verbatim>\<open>v[k]\<close>. The keys of a dict from JSON are strings, so no other hashable key is
  found in it; a list or dict as key is unhashable.
\<close>

fun py_index :: "json \<Rightarrow> json \<Rightarrow> py_error + json" where
  "py_index (JObj kvs) (JStr s) = (case map_of kvs s of None \<Rightarrow> Inl KeyError | Some v \<Rightarrow> Inr v)"
| "py_index (JObj kvs) (JArr _) = Inl TypeError"
| "py_index (JObj kvs) (JObj _) = Inl TypeError"
| "py_index (JObj kvs) _ = Inl KeyError"
| "py_index (JArr xs) k = (case int_value k of None \<Rightarrow> Inl TypeError | Some i \<Rightarrow> seq_index xs i)"
| "py_index (JStr s) k =
     (case int_value k of None \<Rightarrow> Inl TypeError
      | Some i \<Rightarrow> (case seq_index s i of Inl e \<Rightarrow> Inl e | Inr c \<Rightarrow> Inr (JStr [c])))"
| "py_index _ k = Inl TypeError"

text \<open>\<^verbatim>\<open>v[s]\<close> for a string \<open>s\<close>, and \<^verbatim>\<open>v[0]\<close>.\<close>

definition py_getitem :: "json \<Rightarrow> string \<Rightarrow> py_error + json" where
  "py_getitem v s = py_index v (JStr s)"

definition py_getitem0 :: "json \<Rightarrow> py_error + json" where
  "py_getitem0 v = py_index v (JInt 0)"

text \<open>\<^verbatim>\<open>for x in v\<close>: the keys of a dict, the elements of a list, the characters of a string.\<close>

fun py_iter :: "json \<Rightarrow> py_error + json list" where
  "py_iter (JObj kvs) = Inr (map (\<lambda>(k, v). JStr k) (items kvs))"
| "py_iter (JArr xs) = Inr xs"
| "py_iter (JStr s) = Inr (map (\<lambda>c. JStr [c]) s)"
| "py_iter _ = Inl TypeError"

text \<open>\<^verbatim>\<open>len(v)\<close>; a dict counts its keys.\<close>

fun py_len :: "json \<Rightarrow> py_error + nat" where
  "py_len (JObj kvs) = Inr (length (items kvs))"
| "py_len (JArr xs) = Inr (length xs)"
| "py_len (JStr s) = Inr (length s)"
| "py_len _ = Inl TypeError"

subsection \<open>Decimal formatting\<close>

definition digit_char :: "nat \<Rightarrow> char" where
  "digit_char d = ''0123456789'' ! d"

function dec_nat :: "nat \<Rightarrow> string" where
  "dec_nat n = (if n < 10 then [digit_char n] else dec_nat (n div 10) @ [digit_char (n mod 10)])"
  by pat_completeness auto
termination
  by (relation "measure id") auto

declare dec_nat.simps [simp del]

text \<open>\<^verbatim>\<open>str(i)\<close> for an \<^verbatim>\<open>int\<close>.\<close>

definition dec_int :: "int \<Rightarrow> string" where
  "dec_int i = (if i < 0 then CHR ''-'' # dec_nat (nat (- i)) else dec_nat (nat i))"

definition zfill :: "nat \<Rightarrow> string \<Rightarrow> string" where
  "zfill n s = replicate (n - length s) CHR ''0'' @ s"

text \<open>
  The format specification \<^verbatim>\<open>08d\<close> on an \<^verbatim>\<open>int\<close>: sign-aware zero padding to a
  minimum width of 8, the sign counted in the width.
\<close>

definition int_08d :: "int \<Rightarrow> string" where
  "int_08d i = (if i < 0 then CHR ''-'' # zfill 7 (dec_nat (nat (- i))) else zfill 8 (dec_nat (nat i)))"

text \<open>
  \<^verbatim>\<open>'{:08d}'.format(v)\<close>: a \<^verbatim>\<open>bool\<close> is formatted as the integer it is, a
  \<^verbatim>\<open>str\<close> raises ValueError (unknown format code), and \<^verbatim>\<open>None\<close>, lists and dicts
  raise TypeError (unsupported format string).
\<close>

fun format_08d :: "json \<Rightarrow> py_error + string" where
  "format_08d (JInt i) = Inr (int_08d i)"
| "format_08d (JBool b) = Inr (int_08d (if b then 1 else 0))"
| "format_08d (JStr s) = Inl ValueError"
| "format_08d _ = Inl TypeError"

text \<open>
  \<^verbatim>\<open>str(v)\<close> for an \<^verbatim>\<open>int\<close> or \<^verbatim>\<open>bool\<close>. The one call of the source,
  \<^verbatim>\<open>str(pageid)\<close>, comes after \<^verbatim>\<open>pageid\<close> has passed \<open>format_08d\<close>, so no other
  value reaches it; for those the result is left empty.
\<close>

fun py_str :: "json \<Rightarrow> string" where
  "py_str (JInt i) = dec_int i"
| "py_str (JBool b) = (if b then ''True'' else ''False'')"
| "py_str (JStr s) = s"
| "py_str JNull = ''None''"
| "py_str _ = []"

subsection \<open>Configuration and storage keys\<close>

text \<open>
  One entry of \<^verbatim>\<open>config['wikis']\<close>. The keys \<^verbatim>\<open>api\<close>, \<^verbatim>\<open>s3_bucket\<close> and
  \<^verbatim>\<open>s3_prefix\<close> are asserted present by \<^verbatim>\<open>lambda_handler\<close>; \<^verbatim>\<open>slots\<close> is optional.
\<close>

record wiki =
  api :: string
  s3_bucket :: string
  s3_prefix :: string
  slots :: "json option"

definition s3_key_for_revision_metadata :: "wiki \<Rightarrow> json \<Rightarrow> json \<Rightarrow> py_error + string" where
  "s3_key_for_revision_metadata wk pageid revid =
     and_then (format_08d pageid) (\<lambda>p.
     and_then (format_08d revid) (\<lambda>r.
       Inr (s3_prefix wk @ ''page_'' @ p @ ''/rev_'' @ r @ ''.yaml'')))"

definition s3_key_for_revision_content :: "wiki \<Rightarrow> json \<Rightarrow> json \<Rightarrow> py_error + string" where
  "s3_key_for_revision_content wk pageid revid =
     and_then (format_08d pageid) (\<lambda>p.
     and_then (format_08d revid) (\<lambda>r.
       Inr (s3_prefix wk @ ''page_'' @ p @ ''/rev_'' @ r @ ''_data.gz'')))"

subsection \<open>The world: dict objects, the bucket contents, and what was sent\<close>

text \<open>
  The body of an object put on S3: \<open>Yaml v\<close> is \<^verbatim>\<open>yaml.dump(v)\<close> and \<open>Gzip s\<close> is the
  gzip stream of \<^verbatim>\<open>s.encode()\<close>; the two serialisations are not spelled out.
\<close>

datatype s3_body = Yaml dict | Gzip string

datatype event =
    S3Head string string
  | S3Put string string s3_body
  | HttpPost string dict

text \<open>
  \<open>heap\<close> holds the Python dict objects that the code creates and mutates (request
  parameters); a dict variable is an address into it. \<open>s3_objects\<close> is the content of
  S3, by bucket and key. \<open>events\<close> is every call made to S3 and to the wiki, in order.
\<close>

record world =
  heap :: "dict list"
  s3_objects :: "string \<times> string \<Rightarrow> s3_body option"
  events :: "event list"

text \<open>A response of the wiki: the status code, and the body if it parses as JSON.\<close>

datatype http_response = Response nat "json option"

datatype s3_fault = Forbidden | ServerError | Unavailable

fun fault_code :: "s3_fault \<Rightarrow> string" where
  "fault_code Forbidden = ''403''"
| "fault_code ServerError = ''500''"
| "fault_code Unavailable = ''503''"

text \<open>
  What the code does not control. Each answer may depend on the moment of the call (the
  number of calls made before it): the wiki may change, and S3 may fail, at any time.
  \<open>http_post\<close> is \<^verbatim>\<open>requests.post\<close>: an exception of the transport, or a response.
  \<open>head_fault\<close> and \<open>put_fault\<close> are the failures of S3 other than a missing key.
\<close>

record env =
  http_post :: "nat \<Rightarrow> string \<Rightarrow> dict \<Rightarrow> py_error + http_response"
  head_fault :: "nat \<Rightarrow> string \<Rightarrow> string \<Rightarrow> s3_fault option"
  put_fault :: "nat \<Rightarrow> string \<Rightarrow> string \<Rightarrow> s3_fault option"

definition log_event :: "event \<Rightarrow> world \<Rightarrow> world" where
  "log_event e w = w\<lparr>events := events w @ [e]\<rparr>"

text \<open>\<^verbatim>\<open>{...}\<close>: a new dict object.\<close>

definition alloc :: "dict \<Rightarrow> world \<Rightarrow> nat \<times> world" where
  "alloc d w = (length (heap w), w\<lparr>heap := heap w @ [d]\<rparr>)"

text \<open>\<^verbatim>\<open>a.copy()\<close>: a new dict object with the items of the one at \<open>a\<close>.\<close>

definition dict_copy :: "nat \<Rightarrow> world \<Rightarrow> nat \<times> world" where
  "dict_copy a w = alloc (heap w ! a) w"

text \<open>\<^verbatim>\<open>a[k] = v\<close>: the object at \<open>a\<close> is changed in place.\<close>

definition dict_set :: "nat \<Rightarrow> string \<Rightarrow> json \<Rightarrow> world \<Rightarrow> world" where
  "dict_set a k v w = w\<lparr>heap := (heap w)[a := AList.update k v (heap w ! a)]\<rparr>"

definition update_all :: "dict \<Rightarrow> dict \<Rightarrow> dict" where
  "update_all other d = fold (\<lambda>(k, v). AList.update k v) (items other) d"

text \<open>\<^verbatim>\<open>a.update(b)\<close> for two dict objects.\<close>

definition dict_update :: "nat \<Rightarrow> nat \<Rightarrow> world \<Rightarrow> world" where
  "dict_update a b w = w\<lparr>heap := (heap w)[a := update_all (heap w ! b) (heap w ! a)]\<rparr>"

subsection \<open>S3\<close>

text \<open>
  \<^verbatim>\<open>s3.head_object\<close>: raises ClientError with code 404 exactly when there is no such
  object, and with another code on a fault.
\<close>

definition head_object :: "env \<Rightarrow> string \<Rightarrow> string \<Rightarrow> world \<Rightarrow> world \<times> (py_error + unit)" where
  "head_object ev bucket key w =
     (log_event (S3Head bucket key) w,
      case head_fault ev (length (events w)) bucket key of
        Some f \<Rightarrow> Inl (ClientError (fault_code f))
      | None \<Rightarrow> if s3_objects w (bucket, key) = None then Inl (ClientError ''404'') else Inr ())"

text \<open>\<^verbatim>\<open>s3.put_object\<close>: stores the body unless there is a fault.\<close>

definition put_object :: "env \<Rightarrow> string \<Rightarrow> string \<Rightarrow> s3_body \<Rightarrow> world \<Rightarrow> world \<times> (py_error + unit)" where
  "put_object ev bucket key body w =
     (case put_fault ev (length (events w)) bucket key of
        Some f \<Rightarrow> (log_event (S3Put bucket key body) w, Inl (ClientError (fault_code f)))
      | None \<Rightarrow>
          (log_event (S3Put bucket key body) (w\<lparr>s3_objects := (s3_objects w)((bucket, key) \<mapsto> body)\<rparr>),
           Inr ()))"

definition s3_key_exists :: "env \<Rightarrow> string \<Rightarrow> string \<Rightarrow> world \<Rightarrow> world \<times> (py_error + bool)" where
  "s3_key_exists ev bucket key w =
     (case head_object ev bucket key w of
        (w', Inl (ClientError code)) \<Rightarrow>
          if code = ''404'' then (w', Inr False) else (w', Inl (ClientError code))
      | (w', Inl e) \<Rightarrow> (w', Inl e)
      | (w', Inr _) \<Rightarrow> (w', Inr True))"

definition s3_key_for_revision_metadata_exists ::
  "env \<Rightarrow> wiki \<Rightarrow> json \<Rightarrow> json \<Rightarrow> world \<Rightarrow> world \<times> (py_error + bool)" where
  "s3_key_for_revision_metadata_exists ev wk pageid revid w =
     (case s3_key_for_revision_metadata wk pageid revid of
        Inl e \<Rightarrow> (w, Inl e)
      | Inr key \<Rightarrow> s3_key_exists ev (s3_bucket wk) key w)"

definition s3_key_for_revision_content_exists ::
  "env \<Rightarrow> wiki \<Rightarrow> json \<Rightarrow> json \<Rightarrow> world \<Rightarrow> world \<times> (py_error + bool)" where
  "s3_key_for_revision_content_exists ev wk pageid revid w =
     (case s3_key_for_revision_content wk pageid revid of
        Inl e \<Rightarrow> (w, Inl e)
      | Inr key \<Rightarrow> s3_key_exists ev (s3_bucket wk) key w)"

definition s3_put_revision_metadata ::
  "env \<Rightarrow> wiki \<Rightarrow> json \<Rightarrow> json \<Rightarrow> dict \<Rightarrow> world \<Rightarrow> world \<times> (py_error + unit)" where
  "s3_put_revision_metadata ev wk pageid revid val w =
     (case s3_key_for_revision_metadata wk pageid revid of
        Inl e \<Rightarrow> (w, Inl e)
      | Inr key \<Rightarrow> put_object ev (s3_bucket wk) key (Yaml val) w)"

text \<open>\<^verbatim>\<open>content.encode()\<close> needs a \<^verbatim>\<open>str\<close>; no other JSON value has the attribute.\<close>

definition s3_put_revision_content ::
  "env \<Rightarrow> wiki \<Rightarrow> json \<Rightarrow> json \<Rightarrow> json \<Rightarrow> world \<Rightarrow> world \<times> (py_error + unit)" where
  "s3_put_revision_content ev wk pageid revid content w =
     (case s3_key_for_revision_content wk pageid revid of
        Inl e \<Rightarrow> (w, Inl e)
      | Inr key \<Rightarrow>
          (case content of
             JStr s \<Rightarrow> put_object ev (s3_bucket wk) key (Gzip s) w
           | _ \<Rightarrow> (w, Inl AttributeError)))"

subsection \<open>The query generator \<^verbatim>\<open>mwapi_query\<close>\<close>

definition requests_post ::
  "env \<Rightarrow> string \<Rightarrow> dict \<Rightarrow> world \<Rightarrow> world \<times> (py_error + http_response)" where
  "requests_post ev endpoint params w =
     (log_event (HttpPost endpoint params) w, http_post ev (length (events w)) endpoint params)"

text \<open>\<^verbatim>\<open>r.raise_for_status()\<close>: HTTPError for a status from 400 to 599.\<close>

fun raise_for_status :: "http_response \<Rightarrow> py_error + unit" where
  "raise_for_status (Response status body) =
     (if 400 \<le> status \<and> status < 600 then Inl (HTTPError status) else Inr ())"

fun response_json :: "http_response \<Rightarrow> py_error + json" where
  "response_json (Response status body) =
     (case body of None \<Rightarrow> Inl JSONDecodeError | Some j \<Rightarrow> Inr j)"

text \<open>
  Lines 69 to 73: over the keys \<open>k2\<close> of one block \<open>blk = j['query-continue'][k1]\<close>.
  \<^verbatim>\<open>k2.startswith\<close> exists only on a \<^verbatim>\<open>str\<close>.
\<close>

fun collect_inner :: "json \<Rightarrow> json list \<Rightarrow> dict \<Rightarrow> py_error + dict" where
  "collect_inner blk [] cp = Inr cp"
| "collect_inner blk (k2 # ks) cp =
     (case k2 of
        JStr s \<Rightarrow>
          if take 1 s = ''g'' then collect_inner blk ks cp
          else (case py_index blk k2 of
                  Inl e \<Rightarrow> Inl e
                | Inr v \<Rightarrow> collect_inner blk ks (AList.update s v cp))
      | _ \<Rightarrow> Inl AttributeError)"

fun collect_outer :: "json \<Rightarrow> json list \<Rightarrow> dict \<Rightarrow> py_error + dict" where
  "collect_outer qc [] cp = Inr cp"
| "collect_outer qc (k1 # ks) cp =
     (case py_index qc k1 of
        Inl e \<Rightarrow> Inl e
      | Inr blk \<Rightarrow>
          (case py_iter blk of
             Inl e \<Rightarrow> Inl e
           | Inr k2s \<Rightarrow>
               (case collect_inner blk k2s cp of
                  Inl e \<Rightarrow> Inl e
                | Inr cp' \<Rightarrow> collect_outer qc ks cp')))"

text \<open>
  One element of a sequence given to \<^verbatim>\<open>dict.update\<close> must itself be a sequence of
  length 2, the key and the value.
\<close>

fun as_pair :: "json \<Rightarrow> py_error + json \<times> json" where
  "as_pair (JArr xs) = (case xs of [a, b] \<Rightarrow> Inr (a, b) | _ \<Rightarrow> Inl ValueError)"
| "as_pair (JStr s) = (case s of [a, b] \<Rightarrow> Inr (JStr [a], JStr [b]) | _ \<Rightarrow> Inl ValueError)"
| "as_pair (JObj kvs) =
     (case items kvs of [(a, _), (b, _)] \<Rightarrow> Inr (JStr a, JStr b) | _ \<Rightarrow> Inl ValueError)"
| "as_pair _ = Inl TypeError"

text \<open>
  \<^verbatim>\<open>cp.update(xs)\<close> for a sequence \<open>xs\<close>. Parameter names are strings in the model;
  the last case, a key that is \<^verbatim>\<open>None\<close> or a number, is not reached from
  \<^verbatim>\<open>mwapi_query\<close>, where \<^verbatim>\<open>startswith\<close> has been called on every element before.
\<close>

fun update_pairs :: "json list \<Rightarrow> dict \<Rightarrow> py_error + dict" where
  "update_pairs [] cp = Inr cp"
| "update_pairs (x # xs) cp =
     (case as_pair x of
        Inl e \<Rightarrow> Inl e
      | Inr (JStr s, v) \<Rightarrow> update_pairs xs (AList.update s v cp)
      | Inr (_, v) \<Rightarrow> Inl TypeError)"

text \<open>\<^verbatim>\<open>cp.update(v)\<close> for a JSON value \<open>v\<close>.\<close>

fun py_dict_update :: "dict \<Rightarrow> json \<Rightarrow> py_error + dict" where
  "py_dict_update cp (JObj kvs) = Inr (update_all kvs cp)"
| "py_dict_update cp (JArr xs) = update_pairs xs cp"
| "py_dict_update cp (JStr s) = update_pairs (map (\<lambda>c. JStr [c]) s) cp"
| "py_dict_update cp _ = Inl TypeError"

text \<open>Lines 75 and 76.\<close>

fun update_outer :: "json \<Rightarrow> json list \<Rightarrow> dict \<Rightarrow> py_error + dict" where
  "update_outer qc [] cp = Inr cp"
| "update_outer qc (k # ks) cp =
     (case py_index qc k of
        Inl e \<Rightarrow> Inl e
      | Inr blk \<Rightarrow>
          (case py_dict_update cp blk of
             Inl e \<Rightarrow> Inl e
           | Inr cp' \<Rightarrow> update_outer qc ks cp'))"

text \<open>
  Lines 69 to 76: the new \<^verbatim>\<open>continue_params\<close> from \<open>qc = j['query-continue']\<close>. The
  dict starts as a new empty object that only this code sees, so it is computed as a
  value here and put on the heap by the caller.
\<close>

definition resolve_continue :: "json \<Rightarrow> py_error + dict" where
  "resolve_continue qc =
     (case py_iter qc of
        Inl e \<Rightarrow> Inl e
      | Inr k1s \<Rightarrow>
          (case collect_outer qc k1s [] of
             Inl e \<Rightarrow> Inl e
           | Inr cp \<Rightarrow> if cp = [] then update_outer qc k1s [] else Inr cp))"

text \<open>
  A generator object: not yet started (it holds its arguments), suspended at the
  \<^verbatim>\<open>yield\<close> of line 64 (the locals still in use are \<^verbatim>\<open>endpoint\<close>,
  \<^verbatim>\<open>base_params\<close> and \<^verbatim>\<open>j\<close>), or finished.
\<close>

datatype gen = Created string nat | Suspended string nat json | Closed

text \<open>
  The two places of the loop body where control can be: line 45, about to build the
  next request with the dict at \<open>cont\<close> as \<^verbatim>\<open>continue_params\<close>, and line 68, after
  the \<^verbatim>\<open>yield\<close>.
\<close>

datatype point = AtRequest nat | AtContinue json

datatype step = Finish world gen "py_error + json" | Goto point world

text \<open>
  Lines 50 to 65: what the loop body does with the outcome \<open>r\<close> of
  \<^verbatim>\<open>requests.post\<close>, in the world \<open>w\<close> after the request.
\<close>

definition on_response :: "string \<Rightarrow> nat \<Rightarrow> world \<Rightarrow> py_error + http_response \<Rightarrow> step" where
  "on_response endpoint base w r =
     (case and_then r (\<lambda>resp. and_then (raise_for_status resp) (\<lambda>_. response_json resp)) of
        Inl e \<Rightarrow> Finish w Closed (Inl e)
      | Inr j \<Rightarrow>
          (case py_in ''error'' j of
             Inl e \<Rightarrow> Finish w Closed (Inl e)
           | Inr True \<Rightarrow>
               Finish w Closed
                 (Inl (case py_getitem j ''error'' of Inl e \<Rightarrow> e | Inr v \<Rightarrow> WikiError v))
           | Inr False \<Rightarrow>
          (case py_in ''warnings'' j of
             Inl e \<Rightarrow> Finish w Closed (Inl e)
           | Inr True \<Rightarrow>
               Finish w Closed
                 (Inl (case py_getitem j ''warnings'' of Inl e \<Rightarrow> e | Inr v \<Rightarrow> WikiError v))
           | Inr False \<Rightarrow>
          (case py_in ''query'' j of
             Inl e \<Rightarrow> Finish w Closed (Inl e)
           | Inr True \<Rightarrow>
               (case py_getitem j ''query'' of
                  Inl e \<Rightarrow> Finish w Closed (Inl e)
                | Inr q \<Rightarrow> Finish w (Suspended endpoint base j) (Inr q))
           | Inr False \<Rightarrow> Goto (AtContinue j) w))))"

text \<open>Lines 68 to 79: the continuation, or the end of the loop.\<close>

definition on_continue :: "json \<Rightarrow> world \<Rightarrow> step" where
  "on_continue j w =
     (case py_in ''query-continue'' j of
        Inl e \<Rightarrow> Finish w Closed (Inl e)
      | Inr False \<Rightarrow> Finish w Closed (Inl StopIteration)
      | Inr True \<Rightarrow>
          (case and_then (py_getitem j ''query-continue'') resolve_continue of
             Inl e \<Rightarrow> Finish w Closed (Inl e)
           | Inr cp \<Rightarrow> (let (cont, w1) = alloc cp w in Goto (AtRequest cont) w1)))"

text \<open>Lines 45 to 49 and then the above: one pass from either place of the loop body.\<close>

definition mwapi_step :: "env \<Rightarrow> string \<Rightarrow> nat \<Rightarrow> point \<Rightarrow> world \<Rightarrow> step" where
  "mwapi_step ev endpoint base pt w =
     (case pt of
        AtRequest cont \<Rightarrow>
          (let (cur, w1) = dict_copy base w;
               w2 = dict_update cur cont w1;
               (w3, r) = requests_post ev endpoint (heap w2 ! cur) w2
           in on_response endpoint base w3 r)
      | AtContinue j \<Rightarrow> on_continue j w)"

text \<open>
  The \<^verbatim>\<open>while True\<close> loop up to the next \<^verbatim>\<open>yield\<close>, exception or \<^verbatim>\<open>break\<close>. A
  wiki that keeps answering with a continuation and no result keeps it running for
  ever: then the value is \<open>None\<close>.
\<close>

partial_function (option) mwapi_loop ::
  "env \<Rightarrow> string \<Rightarrow> nat \<Rightarrow> point \<Rightarrow> world \<Rightarrow> (world \<times> gen \<times> (py_error + json)) option" where
  "mwapi_loop ev endpoint base pt w =
     (case mwapi_step ev endpoint base pt w of
        Finish w' g r \<Rightarrow> Some (w', g, r)
      | Goto pt' w' \<Rightarrow> mwapi_loop ev endpoint base pt' w')"

declare mwapi_loop.simps [code]

text \<open>
  \<^verbatim>\<open>next(g)\<close>: the new world, the new state of the generator, and the fragment
  yielded or the exception raised (StopIteration when the generator returns). The body
  of a generator function starts to run at the first \<^verbatim>\<open>next\<close>.
\<close>

definition gen_next :: "env \<Rightarrow> gen \<Rightarrow> world \<Rightarrow> (world \<times> gen \<times> (py_error + json)) option" where
  "gen_next ev g w =
     (case g of
        Created endpoint params \<Rightarrow>
          (let (base, w1) = dict_copy params w;
               w2 = dict_set base ''action'' (JStr ''query'') w1;
               w3 = dict_set base ''format'' (JStr ''json'') w2;
               w4 = dict_set base ''rawcontinue'' (JStr '''') w3;
               w5 = dict_set base ''maxlag'' (JStr ''1'') w4;
               (cont, w6) = alloc [] w5
           in mwapi_loop ev endpoint base (AtRequest cont) w6)
      | Suspended endpoint base j \<Rightarrow> mwapi_loop ev endpoint base (AtContinue j) w
      | Closed \<Rightarrow> Some (w, Closed, Inl StopIteration))"

subsection \<open>The archiver \<^verbatim>\<open>handle_revision\<close>\<close>

text \<open>The values that lines 205 to 230 take out of the result.\<close>

record fetched =
  f_pageid :: json
  f_title :: json
  f_fullurl :: json
  f_parentid :: json
  f_user :: json
  f_timestamp :: json
  f_comment :: json
  f_content :: "json option"

text \<open>Lines 224 to 230.\<close>

definition extract_content :: "wiki \<Rightarrow> json \<Rightarrow> py_error + json" where
  "extract_content wk revision =
     (if slots wk \<noteq> None then
        and_then (py_getitem revision ''slots'') (\<lambda>sl.
        py_assert (py_in ''main'' sl) (
        and_then (py_getitem sl ''main'') (\<lambda>main.
        py_assert (py_in ''*'' main) (
        py_getitem main ''*''))))
      else
        py_assert (py_in ''*'' revision) (
        py_getitem revision ''*''))"

text \<open>
  Lines 205 to 230, which call neither S3 nor the wiki. The values that line 233 reads
  from \<^verbatim>\<open>page\<close> and \<^verbatim>\<open>revision\<close> are read here, after the assertion that they are
  present.
\<close>

definition check_revision :: "wiki \<Rightarrow> json \<Rightarrow> json \<Rightarrow> bool \<Rightarrow> json \<Rightarrow> py_error + fetched" where
  "check_revision wk pageid revid need_content result =
     py_assert (py_in ''pages'' result) (
     and_then (py_getitem result ''pages'') (\<lambda>pages.
     py_assert (py_in (py_str pageid) pages) (
     py_assert (and_then (py_len pages) (\<lambda>n. Inr (n = 1))) (
     and_then (py_getitem pages (py_str pageid)) (\<lambda>page.
     py_assert (py_in ''pageid'' page) (
     and_then (py_getitem page ''pageid'') (\<lambda>page_pageid.
     py_assert (Inr (py_eq page_pageid pageid)) (
     py_assert (py_in ''title'' page) (
     and_then (py_getitem page ''title'') (\<lambda>title.
     py_assert (py_in ''fullurl'' page) (
     and_then (py_getitem page ''fullurl'') (\<lambda>fullurl.
     py_assert (py_in ''revisions'' page) (
     and_then (py_getitem page ''revisions'') (\<lambda>revisions.
     py_assert (and_then (py_len revisions) (\<lambda>n. Inr (n = 1))) (
     and_then (py_getitem0 revisions) (\<lambda>revision.
     py_assert (py_in ''revid'' revision) (
     and_then (py_getitem revision ''revid'') (\<lambda>revision_revid.
     py_assert (Inr (py_eq revision_revid revid)) (
     py_assert (py_in ''parentid'' revision) (
     and_then (py_getitem revision ''parentid'') (\<lambda>parentid.
     py_assert (py_in ''user'' revision) (
     and_then (py_getitem revision ''user'') (\<lambda>user.
     py_assert (py_in ''timestamp'' revision) (
     and_then (py_getitem revision ''timestamp'') (\<lambda>timestamp.
     py_assert (py_in ''comment'' revision) (
     and_then (py_getitem revision ''comment'') (\<lambda>comment.
     and_then (if need_content
               then and_then (extract_content wk revision) (\<lambda>c. Inr (Some c))
               else Inr None) (\<lambda>content.
     Inr \<lparr>f_pageid = page_pageid, f_title = title, f_fullurl = fullurl,
          f_parentid = parentid, f_user = user, f_timestamp = timestamp,
          f_comment = comment, f_content = content\<rparr>))))))))))))))))))))))))))))"

text \<open>Lines 190 to 195: the dict literal.\<close>

definition req_params_literal :: "json \<Rightarrow> dict" where
  "req_params_literal revid =
     [(''prop'', JStr ''revisions|info''),
      (''rvprop'', JStr ''ids|user|timestamp|comment''),
      (''inprop'', JStr ''url''),
      (''revids'', revid)]"

text \<open>
  Lines 198 to 200, run when the content is needed. The \<^verbatim>\<open>+=\<close> of line 198 reads
  back the string that line 192 stored in this new dict, which only
  \<^verbatim>\<open>handle_revision\<close> holds and which the HEAD of line 196 does not touch, so the
  value appended to is that literal.
\<close>

definition request_content :: "wiki \<Rightarrow> nat \<Rightarrow> world \<Rightarrow> world" where
  "request_content wk req w =
     (let w1 = dict_set req ''rvprop'' (JStr (''ids|user|timestamp|comment'' @ ''|content'')) w
      in case slots wk of None \<Rightarrow> w1 | Some sl \<Rightarrow> dict_set req ''rvslots'' sl w1)"

text \<open>Lines 233 to 242: the dict literal.\<close>

definition metadata_value :: "json \<Rightarrow> fetched \<Rightarrow> dict" where
  "metadata_value revid f =
     [(''pageid'', f_pageid f),
      (''title'', f_title f),
      (''url'', f_fullurl f),
      (''revid'', revid),
      (''parentid'', f_parentid f),
      (''user'', f_user f),
      (''timestamp'', f_timestamp f),
      (''comment'', f_comment f)]"

text \<open>
  \<open>handle_revision ev depth wk pageid revid w\<close>. \<open>depth\<close> is the number of nested calls
  that Python's recursion limit still allows: a call beyond it raises RecursionError.
  The result is the world after the call and the exception, if one was raised; \<open>None\<close>
  when the query loop never comes back.
\<close>

fun handle_revision ::
  "env \<Rightarrow> nat \<Rightarrow> wiki \<Rightarrow> json \<Rightarrow> json \<Rightarrow> world \<Rightarrow> (world \<times> (py_error + unit)) option" where
  "handle_revision ev 0 wk pageid revid w = Some (w, Inl RecursionError)"
| "handle_revision ev (Suc depth) wk pageid revid w =
     (if py_eq revid (JInt 0) then Some (w, Inr ())
      else
        case s3_key_for_revision_metadata_exists ev wk pageid revid w of
          (w1, Inl e) \<Rightarrow> Some (w1, Inl e)
        | (w1, Inr True) \<Rightarrow> Some (w1, Inr ())
        | (w1, Inr False) \<Rightarrow>
            (let (req_params, w2) = alloc (req_params_literal revid) w1 in
             case s3_key_for_revision_content_exists ev wk pageid revid w2 of
               (w3, Inl e) \<Rightarrow> Some (w3, Inl e)
             | (w3, Inr have_content) \<Rightarrow>
                 (let need_content = \<not> have_content;
                      w4 = (if need_content then request_content wk req_params w3 else w3)
                  in case gen_next ev (Created (api wk) req_params) w4 of
                       None \<Rightarrow> None
                     | Some (w5, g, Inl e) \<Rightarrow> Some (w5, Inl e)
                     | Some (w5, g, Inr result) \<Rightarrow>
                         (case check_revision wk pageid revid need_content result of
                            Inl e \<Rightarrow> Some (w5, Inl e)
                          | Inr f \<Rightarrow>
                              (case (case f_content f of
                                       None \<Rightarrow> (w5, Inr ())
                                     | Some content \<Rightarrow>
                                         s3_put_revision_content ev wk pageid revid content w5) of
                                 (w6, Inl e) \<Rightarrow> Some (w6, Inl e)
                               | (w6, Inr _) \<Rightarrow>
                                   (case handle_revision ev depth wk pageid (f_parentid f) w6 of
                                      None \<Rightarrow> None
                                    | Some (w7, Inl e) \<Rightarrow> Some (w7, Inl e)
                                    | Some (w7, Inr _) \<Rightarrow>
                                        Some (s3_put_revision_metadata ev wk pageid revid
                                                (metadata_value revid f) w7)))))))"

subsection \<open>Callers and observers\<close>

text \<open>\<open>n\<close> calls of \<^verbatim>\<open>next\<close> on a generator, with what each one gave.\<close>

fun consume ::
  "env \<Rightarrow> nat \<Rightarrow> gen \<Rightarrow> world \<Rightarrow> (world \<times> gen \<times> (py_error + json) list) option" where
  "consume ev 0 g w = Some (w, g, [])"
| "consume ev (Suc n) g w =
     (case gen_next ev g w of
        None \<Rightarrow> None
      | Some (w1, g1, r) \<Rightarrow>
          (case consume ev n g1 w1 of
             None \<Rightarrow> None
           | Some (w2, g2, rs) \<Rightarrow> Some (w2, g2, r # rs)))"

fun is_post :: "event \<Rightarrow> bool" where
  "is_post (HttpPost endpoint params) = True"
| "is_post _ = False"

fun is_put :: "event \<Rightarrow> bool" where
  "is_put (S3Put bucket key body) = True"
| "is_put _ = False"

text \<open>
  From \<open>w\<close> to \<open>w'\<close> only requests to the wiki were made: the bucket is the same, every
  dict that was there is unchanged, and the new events are all POSTs.
\<close>

definition query_only :: "world \<Rightarrow> world \<Rightarrow> bool" where
  "query_only w w' \<longleftrightarrow>
     s3_objects w' = s3_objects w
     \<and> (\<exists>ds. heap w' = heap w @ ds)
     \<and> (\<exists>ps. events w' = events w @ ps \<and> list_all is_post ps)"

text \<open>
  From \<open>w\<close> to \<open>w'\<close> calls were added to the events, every content put among them went
  to a key that had no object in \<open>w\<close>, and no object was removed.
\<close>

definition archived :: "world \<Rightarrow> world \<Rightarrow> bool" where
  "archived w w' \<longleftrightarrow>
     (\<exists>new. events w' = events w @ new
        \<and> (\<forall>b k c. S3Put b k (Gzip c) \<in> set new \<longrightarrow> s3_objects w (b, k) = None))
     \<and> (\<forall>x. s3_objects w x \<noteq> None \<longrightarrow> s3_objects w' x \<noteq> None)"

text \<open>
  The parameters of the first request of a generator made with the dict \<open>d\<close>: lines
  34 to 38, and no continuation yet.
\<close>

definition first_params :: "dict \<Rightarrow> dict" where
  "first_params d =
     AList.update ''maxlag'' (JStr ''1'')
       (AList.update ''rawcontinue'' (JStr [])
         (AList.update ''format'' (JStr ''json'')
           (AList.update ''action'' (JStr ''query'') d)))"

text \<open>The events added from \<open>w\<close> to \<open>w'\<close>.\<close>

definition new_events :: "world \<Rightarrow> world \<Rightarrow> event list" where
  "new_events w w' = drop (length (events w)) (events w')"

text \<open>The metadata values put on S3 by a list of events, in order.\<close>

fun meta_writes :: "event list \<Rightarrow> dict list" where
  "meta_writes [] = []"
| "meta_writes (S3Put bucket key (Yaml v) # es) = v # meta_writes es"
| "meta_writes (e # es) = meta_writes es"

text \<open>
  \<open>chain_from stop r ms\<close>: the metadata values \<open>ms\<close> are those of \<open>r\<close>, of its parent, of
  the parent of that one, and so on, each naming the next as its \<^verbatim>\<open>parentid\<close>, and the
  parent named by the last of them satisfies \<open>stop\<close>.
\<close>

fun chain_from :: "(json \<Rightarrow> bool) \<Rightarrow> json \<Rightarrow> dict list \<Rightarrow> bool" where
  "chain_from stop r [] = stop r"
| "chain_from stop r (m # ms) =
     (map_of m ''revid'' = Some r
      \<and> (case map_of m ''parentid'' of None \<Rightarrow> False | Some q \<Rightarrow> chain_from stop q ms))"

text \<open>
  The metadata put of the revision whose content key is \<open>key\<close>: the same bucket, and
  the key with \<^verbatim>\<open>.yaml\<close> in place of \<^verbatim>\<open>_data.gz\<close>.
\<close>

fun metadata_put_for :: "string \<Rightarrow> string \<Rightarrow> event \<Rightarrow> bool" where
  "metadata_put_for bucket key (S3Put bucket' key' (Yaml v)) =
     (bucket' = bucket \<and> drop (length key - 8) key = ''_data.gz''
      \<and> key' = take (length key - 8) key @ ''.yaml'')"
| "metadata_put_for bucket key e = False"

text \<open>Every content put in the list is followed, later in the list, by the metadata put of the same revision.\<close>

fun content_first :: "event list \<Rightarrow> bool" where
  "content_first [] = True"
| "content_first (S3Put bucket key (Gzip c) # es) =
     (list_ex (metadata_put_for bucket key) es \<and> content_first es)"
| "content_first (e # es) = content_first es"

text \<open>
  Step 5 of the specification, in its words: exactly one page in the result, the
  page id matches, exactly one revision, the revision id matches.
\<close>

definition single_revid_shape :: "json \<Rightarrow> json \<Rightarrow> json \<Rightarrow> bool" where
  "single_revid_shape pageid revid result =
     (case py_getitem result ''pages'' of
        Inl e \<Rightarrow> False
      | Inr pages \<Rightarrow>
          py_len pages = Inr 1
          \<and> (case py_getitem pages (py_str pageid) of
                Inl e \<Rightarrow> False
              | Inr page \<Rightarrow>
                  (case py_getitem page ''pageid'' of Inl e \<Rightarrow> False | Inr i \<Rightarrow> py_eq i pageid)
                  \<and> (case py_getitem page ''revisions'' of
                        Inl e \<Rightarrow> False
                      | Inr revisions \<Rightarrow>
                          py_len revisions = Inr 1
                          \<and> (case py_getitem0 revisions of
                                Inl e \<Rightarrow> False
                              | Inr revision \<Rightarrow>
                                  (case py_getitem revision ''revid'' of
                                     Inl e \<Rightarrow> False
                                   | Inr i \<Rightarrow> py_eq i revid)))))"

fun is_obj :: "json \<Rightarrow> bool" where
  "is_obj (JObj kvs) = True"
| "is_obj _ = False"

text \<open>
  The JSON types of the API's format, as far as they are there: the result is an
  object, its \<^verbatim>\<open>pages\<close> is an object, the page of the requested id is an object, and
  its \<^verbatim>\<open>revisions\<close> is an array of objects.
\<close>

definition api_typed :: "json \<Rightarrow> json \<Rightarrow> bool" where
  "api_typed pageid result =
     (case result of
        JObj ro \<Rightarrow>
          (case map_of ro ''pages'' of
             None \<Rightarrow> True
           | Some (JObj po) \<Rightarrow>
               (case map_of po (py_str pageid) of
                  None \<Rightarrow> True
                | Some (JObj pg) \<Rightarrow>
                    (case map_of pg ''revisions'' of
                       None \<Rightarrow> True
                     | Some (JArr rs) \<Rightarrow> list_all is_obj rs
                     | Some _ \<Rightarrow> False)
                | Some _ \<Rightarrow> False)
           | Some _ \<Rightarrow> False)
      | _ \<Rightarrow> False)"

subsection \<open>A small wiki, for concrete runs\<close>

definition ex_wiki :: wiki where
  "ex_wiki = \<lparr>api = ''https://w/api.php'', s3_bucket = ''b'', s3_prefix = ''x/'', slots = None\<rparr>"

definition ex_empty :: world where
  "ex_empty = \<lparr>heap = [], s3_objects = Map.empty, events = []\<rparr>"

text \<open>A bucket that holds the metadata of revision 42 of page 5.\<close>

definition ex_archived :: world where
  "ex_archived =
     \<lparr>heap = [],
      s3_objects = [(''b'', ''x/page_00000005/rev_00000042.yaml'') \<mapsto> Yaml []],
      events = []\<rparr>"

text \<open>A wiki that answers every request with an error in a response of status 200.\<close>

definition ex_error_body :: dict where
  "ex_error_body = [(''error'', JObj [(''code'', JStr ''maxlag'')]), (''query'', JObj [])]"

definition ex_error_env :: env where
  "ex_error_env =
     \<lparr>http_post = (\<lambda>t endpoint params. Inr (Response 200 (Some (JObj ex_error_body)))),
      head_fault = (\<lambda>t bucket key. None),
      put_fault = (\<lambda>t bucket key. None)\<rparr>"

text \<open>The continuation block of the specification's example.\<close>

definition ex_continue :: dict where
  "ex_continue =
     [(''query'', JObj [(''gpageid'', JInt 7)]), (''another'', JObj [(''foo'', JInt 1)])]"

text \<open>
  A wiki with one page, 5, whose revision \<open>r\<close> has the parent \<open>r - 1\<close>; it answers a
  request by its \<^verbatim>\<open>revids\<close> parameter. S3 never fails.
\<close>

definition ex_revision :: "int \<Rightarrow> json" where
  "ex_revision r =
     JObj [(''revid'', JInt r), (''parentid'', JInt (r - 1)), (''user'', JStr ''ann''),
           (''timestamp'', JStr ''2020''), (''comment'', JStr []), (''*'', JStr ''text'')]"

definition ex_page :: "int \<Rightarrow> json" where
  "ex_page r =
     JObj [(''pageid'', JInt 5), (''title'', JStr ''Main''), (''fullurl'', JStr ''https://w/Main''),
           (''revisions'', JArr [ex_revision r])]"

definition ex_body :: "int \<Rightarrow> json" where
  "ex_body r = JObj [(''query'', JObj [(''pages'', JObj [(''5'', ex_page r)])])]"

definition ex_env :: env where
  "ex_env =
     \<lparr>http_post = (\<lambda>t endpoint params.
        case map_of params ''revids'' of
          Some (JInt r) \<Rightarrow> Inr (Response 200 (Some (ex_body r)))
        | _ \<Rightarrow> Inl RequestException),
      head_fault = (\<lambda>t bucket key. None),
      put_fault = (\<lambda>t bucket key. None)\<rparr>"

text \<open>A world where the caller holds one dict, at address 0.\<close>

definition ex_caller :: world where
  "ex_caller = \<lparr>heap = [[(''revids'', JInt 1)]], s3_objects = Map.empty, events = []\<rparr>"

text \<open>A bucket that holds the content of revision 1 of page 5, and not its metadata.\<close>

definition ex_content_only :: world where
  "ex_content_only =
     \<lparr>heap = [],
      s3_objects = [(''b'', ''x/page_00000005/rev_00000001_data.gz'') \<mapsto> Gzip ''text''],
      events = []\<rparr>"

text \<open>A wiki that answers every request with revision 7 of page 5.\<close>

definition ex_stale_env :: env where
  "ex_stale_env =
     \<lparr>http_post = (\<lambda>t endpoint params. Inr (Response 200 (Some (ex_body 7)))),
      head_fault = (\<lambda>t bucket key. None),
      put_fault = (\<lambda>t bucket key. None)\<rparr>"

section \<open>Properties\<close>

subsection \<open>Storage keys\<close>

lemma dec_nat_42: "dec_nat 42 = ''42''"
  by (simp add: dec_nat.simps digit_char_def)

lemma dec_nat_5: "dec_nat 5 = ''5''"
  by (simp add: dec_nat.simps digit_char_def)

lemma zfill_8_examples: "zfill 8 ''42'' = ''00000042''" "zfill 8 ''5'' = ''00000005''"
  by (simp_all add: zfill_def eval_nat_numeral)

lemma int_08d_42: "int_08d 42 = ''00000042''"
  by (simp add: int_08d_def dec_nat_42 zfill_8_examples)

lemma int_08d_5: "int_08d 5 = ''00000005''"
  by (simp add: int_08d_def dec_nat_5 zfill_8_examples)

lemma int_08d_nat: "int_08d (int n) = replicate (8 - length (dec_nat n)) CHR ''0'' @ dec_nat n"
  by (simp add: int_08d_def zfill_def)

text \<open>
  C7. For every prefix and every unsigned pageid and revid, the metadata key is the
  prefix, \<^verbatim>\<open>page_\<close>, the decimal pageid padded on the left with zeros to at least 8
  digits, \<^verbatim>\<open>/rev_\<close>, the revid padded in the same way, and \<^verbatim>\<open>.yaml\<close>; the content
  key differs only in its suffix \<^verbatim>\<open>_data.gz\<close>. With prefix \<^verbatim>\<open>x/\<close>, pageid 5 and
  revid 42 the metadata key is \<^verbatim>\<open>x/page_00000005/rev_00000042.yaml\<close>.
\<close>

theorem key_derivation:
  "s3_key_for_revision_metadata wk (JInt (int p)) (JInt (int r)) =
     Inr (s3_prefix wk @ ''page_'' @ replicate (8 - length (dec_nat p)) CHR ''0'' @ dec_nat p
          @ ''/rev_'' @ replicate (8 - length (dec_nat r)) CHR ''0'' @ dec_nat r @ ''.yaml'')
   \<and> s3_key_for_revision_content wk (JInt (int p)) (JInt (int r)) =
     Inr (s3_prefix wk @ ''page_'' @ replicate (8 - length (dec_nat p)) CHR ''0'' @ dec_nat p
          @ ''/rev_'' @ replicate (8 - length (dec_nat r)) CHR ''0'' @ dec_nat r @ ''_data.gz'')
   \<and> s3_key_for_revision_metadata \<lparr>api = a, s3_bucket = b, s3_prefix = ''x/'', slots = sl\<rparr>
        (JInt 5) (JInt 42) = Inr ''x/page_00000005/rev_00000042.yaml''
   \<and> s3_key_for_revision_content \<lparr>api = a, s3_bucket = b, s3_prefix = ''x/'', slots = sl\<rparr>
        (JInt 5) (JInt 42) = Inr ''x/page_00000005/rev_00000042_data.gz''"
  by (simp add: s3_key_for_revision_metadata_def s3_key_for_revision_content_def and_then_def
      int_08d_nat int_08d_42 int_08d_5)


subsection \<open>Effects of the primitives\<close>

lemma log_event_simps [simp]:
  "heap (log_event e w) = heap w"
  "s3_objects (log_event e w) = s3_objects w"
  "events (log_event e w) = events w @ [e]"
  by (simp_all add: log_event_def)

lemma fault_code_not_404 [simp]: "fault_code f \<noteq> ''404''"
  by (cases f) simp_all

lemma s3_key_exists_eq:
  "s3_key_exists ev b k w =
     (log_event (S3Head b k) w,
      case head_fault ev (length (events w)) b k of
        Some f \<Rightarrow> Inl (ClientError (fault_code f))
      | None \<Rightarrow> Inr (s3_objects w (b, k) \<noteq> None))"
  by (simp add: s3_key_exists_def head_object_def split: option.splits)

lemma py_in_obj: "py_in s (JObj kvs) = Inr (map_of kvs s \<noteq> None)"
  by (simp add: map_of_eq_None_iff)

subsection \<open>The archiver: the two early returns\<close>

text \<open>
  C9. With revid 0, \<open>handle_revision\<close> returns at once in the world it was called in:
  no call to S3 or to the wiki is made, no dict is created, nothing is stored.
\<close>

theorem root_sentinel:
  "handle_revision ev (Suc depth) wk pageid (JInt 0) w = Some (w, Inr ())"
  by (simp add: py_eq_def)

text \<open>
  C3. When the metadata object of (pageid, revid) is in the bucket at the start of
  the call, the call ends without a request to the wiki and without a put: the bucket
  and the dicts are unchanged, the only call made is the HEAD on the metadata key
  (none at all when revid is 0), and the call returns normally unless that HEAD fails
  with a fault of S3.
\<close>

theorem memoization_short_circuit:
  assumes key: "s3_key_for_revision_metadata wk pageid revid = Inr key"
    and present: "s3_objects w (s3_bucket wk, key) = Some body"
  shows "\<exists>w' res. handle_revision ev (Suc depth) wk pageid revid w = Some (w', res)
           \<and> s3_objects w' = s3_objects w \<and> heap w' = heap w
           \<and> (events w' = events w \<or> events w' = events w @ [S3Head (s3_bucket wk) key])
           \<and> (head_fault ev (length (events w)) (s3_bucket wk) key = None \<longrightarrow> res = Inr ())"
  using assms
  by (auto simp: s3_key_for_revision_metadata_exists_def s3_key_exists_eq split: option.splits)

theorem memoization_short_circuit_witness:
  "s3_key_for_revision_metadata ex_wiki (JInt 5) (JInt 42) = Inr ''x/page_00000005/rev_00000042.yaml''
   \<and> s3_objects ex_archived (s3_bucket ex_wiki, ''x/page_00000005/rev_00000042.yaml'') = Some (Yaml [])
   \<and> (\<exists>w' res. handle_revision ex_error_env (Suc 0) ex_wiki (JInt 5) (JInt 42) ex_archived = Some (w', res)
           \<and> s3_objects w' = s3_objects ex_archived \<and> heap w' = heap ex_archived
           \<and> (events w' = events ex_archived
               \<or> events w' = events ex_archived @ [S3Head (s3_bucket ex_wiki) ''x/page_00000005/rev_00000042.yaml''])
           \<and> (head_fault ex_error_env (length (events ex_archived)) (s3_bucket ex_wiki)
                 ''x/page_00000005/rev_00000042.yaml'' = None \<longrightarrow> res = Inr ()))"
proof -
  have key: "s3_key_for_revision_metadata ex_wiki (JInt 5) (JInt 42) = Inr ''x/page_00000005/rev_00000042.yaml''"
    by (simp add: s3_key_for_revision_metadata_def and_then_def int_08d_42 int_08d_5 ex_wiki_def)
  have present: "s3_objects ex_archived (s3_bucket ex_wiki, ''x/page_00000005/rev_00000042.yaml'') = Some (Yaml [])"
    by (simp add: ex_archived_def ex_wiki_def)
  from memoization_short_circuit [OF key present, of ex_error_env 0] key present
  show ?thesis by blast
qed

subsection \<open>The query generator: errors and warnings\<close>

lemma on_response_error:
  assumes "\<not> (400 \<le> status \<and> status < 600)" "map_of kvs ''error'' = Some v"
  shows "on_response endpoint base w (Inr (Response status (Some (JObj kvs))))
           = Finish w Closed (Inl (WikiError v))"
  using assms
  by (simp add: on_response_def and_then_def py_in_obj py_getitem_def del: py_in.simps)

lemma on_response_warnings:
  assumes "\<not> (400 \<le> status \<and> status < 600)"
    "map_of kvs ''error'' = None" "map_of kvs ''warnings'' = Some v"
  shows "on_response endpoint base w (Inr (Response status (Some (JObj kvs))))
           = Finish w Closed (Inl (WikiError v))"
  using assms
  by (simp add: on_response_def and_then_def py_in_obj py_getitem_def del: py_in.simps)

lemma mwapi_loop_request:
  "mwapi_loop ev endpoint base (AtRequest cont) w =
     (let (cur, w1) = dict_copy base w;
          w2 = dict_update cur cont w1;
          (w3, r) = requests_post ev endpoint (heap w2 ! cur) w2
      in case on_response endpoint base w3 r of
           Finish w' g r \<Rightarrow> Some (w', g, r)
         | Goto pt' w' \<Rightarrow> mwapi_loop ev endpoint base pt' w')"
  by (subst mwapi_loop.simps) (simp add: mwapi_step_def Let_def split: prod.splits)

lemma mwapi_loop_continue:
  "mwapi_loop ev endpoint base (AtContinue j) w =
     (case on_continue j w of
        Finish w' g r \<Rightarrow> Some (w', g, r)
      | Goto pt' w' \<Rightarrow> mwapi_loop ev endpoint base pt' w')"
  by (subst mwapi_loop.simps) (simp add: mwapi_step_def)

text \<open>
  C6. Take a response whose status is not an HTTP error (so \<^verbatim>\<open>raise_for_status\<close>
  passes, status 200 included) and whose body is a JSON object with an \<^verbatim>\<open>error\<close>
  field, or with no \<^verbatim>\<open>error\<close> field and a \<^verbatim>\<open>warnings\<close> field, of value \<open>v\<close>.
  Then the loop body raises \<open>WikiError v\<close> on it and the generator is finished: nothing
  is yielded from that response, whatever else the body holds. So when the wiki gives
  this answer to the request made at some pass of the loop, or to the first request
  of a new generator, \<^verbatim>\<open>next\<close> raises \<open>WikiError v\<close> after that one request.
\<close>

theorem query_error_policy:
  assumes status: "\<not> (400 \<le> status \<and> status < 600)"
    and field: "map_of kvs ''error'' = Some v
                \<or> map_of kvs ''error'' = None \<and> map_of kvs ''warnings'' = Some v"
    and answer: "\<forall>params. http_post ev (length (events w)) endpoint params
                   = Inr (Response status (Some (JObj kvs)))"
  shows "on_response endpoint base w0 (Inr (Response status (Some (JObj kvs))))
           = Finish w0 Closed (Inl (WikiError v))
     \<and> (\<exists>w'. mwapi_loop ev endpoint base (AtRequest cont) w = Some (w', Closed, Inl (WikiError v))
             \<and> s3_objects w' = s3_objects w \<and> length (events w') = Suc (length (events w)))
     \<and> (\<exists>w'. gen_next ev (Created endpoint a) w = Some (w', Closed, Inl (WikiError v))
             \<and> s3_objects w' = s3_objects w \<and> length (events w') = Suc (length (events w)))"
proof -
  have resp: "on_response endpoint base' w' (Inr (Response status (Some (JObj kvs))))
                = Finish w' Closed (Inl (WikiError v))" for w' base'
    using status field on_response_error on_response_warnings by blast
  show ?thesis
    using answer
    by (auto simp: resp mwapi_loop_request gen_next_def requests_post_def dict_copy_def
        alloc_def dict_update_def dict_set_def Let_def)
qed

theorem query_error_policy_witness:
  "\<not> (400 \<le> (200::nat) \<and> (200::nat) < 600)
   \<and> (map_of ex_error_body ''error'' = Some (JObj [(''code'', JStr ''maxlag'')])
      \<or> map_of ex_error_body ''error'' = None
        \<and> map_of ex_error_body ''warnings'' = Some (JObj [(''code'', JStr ''maxlag'')]))
   \<and> (\<forall>params. http_post ex_error_env (length (events ex_empty)) ''https://w/api.php'' params
          = Inr (Response 200 (Some (JObj ex_error_body))))
   \<and> on_response ''https://w/api.php'' 0 ex_empty (Inr (Response 200 (Some (JObj ex_error_body))))
       = Finish ex_empty Closed (Inl (WikiError (JObj [(''code'', JStr ''maxlag'')])))
   \<and> (\<exists>w'. mwapi_loop ex_error_env ''https://w/api.php'' 0 (AtRequest 0) ex_empty
                = Some (w', Closed, Inl (WikiError (JObj [(''code'', JStr ''maxlag'')])))
             \<and> s3_objects w' = s3_objects ex_empty
             \<and> length (events w') = Suc (length (events ex_empty)))
   \<and> (\<exists>w'. gen_next ex_error_env (Created ''https://w/api.php'' 0) ex_empty
                = Some (w', Closed, Inl (WikiError (JObj [(''code'', JStr ''maxlag'')])))
             \<and> s3_objects w' = s3_objects ex_empty
             \<and> length (events w') = Suc (length (events ex_empty)))"
proof -
  have status: "\<not> (400 \<le> (200::nat) \<and> (200::nat) < 600)" by simp
  have field: "map_of ex_error_body ''error'' = Some (JObj [(''code'', JStr ''maxlag'')])
      \<or> map_of ex_error_body ''error'' = None
        \<and> map_of ex_error_body ''warnings'' = Some (JObj [(''code'', JStr ''maxlag'')])"
    by (simp add: ex_error_body_def)
  have answer: "\<forall>params. http_post ex_error_env (length (events ex_empty)) ''https://w/api.php'' params
          = Inr (Response 200 (Some (JObj ex_error_body)))"
    by (simp add: ex_error_env_def)
  from query_error_policy [OF status field answer, of 0 ex_empty 0 0] status field answer
  show ?thesis by blast
qed

subsection \<open>The query generator: continuation\<close>

lemma map_of_fold_update:
  "distinct (map fst xs) \<Longrightarrow>
     map_of (fold (\<lambda>(k, v). AList.update k v) xs d) = map_of d ++ map_of xs"
proof (induction xs arbitrary: d)
  case Nil
  then show ?case by simp
next
  case (Cons x xs)
  obtain k v where x: "x = (k, v)" by (cases x)
  from Cons.prems x have fresh: "map_of xs k = None"
    by (simp add: map_of_eq_None_iff)
  from Cons.prems have "distinct (map fst xs)" by simp
  then have "map_of (fold (\<lambda>(k, v). AList.update k v) xs (AList.update k v d))
               = map_of (AList.update k v d) ++ map_of xs"
    by (rule Cons.IH)
  with fresh show ?case
    by (auto simp: x update_conv' fun_eq_iff map_add_def split: option.splits)
qed

lemma map_of_update_all: "map_of (update_all other d) = map_of d ++ map_of other"
  by (simp add: update_all_def items_def map_of_fold_update map_of_clearjunk)

lemma collect_inner_obj:
  "set ks \<subseteq> dom (map_of inner) \<Longrightarrow>
     \<exists>cp'. collect_inner (JObj inner) (map JStr ks) cp = Inr cp'
        \<and> map_of cp' = (\<lambda>k. if k \<in> set ks \<and> take 1 k \<noteq> ''g'' then map_of inner k else map_of cp k)"
proof (induction ks arbitrary: cp)
  case Nil
  then show ?case by simp
next
  case (Cons k ks)
  then obtain v where v: "map_of inner k = Some v" by auto
  from Cons.prems have sub: "set ks \<subseteq> dom (map_of inner)" by simp
  show ?case
  proof (cases "take 1 k = ''g''")
    case True
    with Cons.IH [OF sub, of cp] show ?thesis by (auto simp: fun_eq_iff)
  next
    case False
    with Cons.IH [OF sub, of "AList.update k v cp"] v show ?thesis
      by (auto simp: fun_eq_iff update_conv')
  qed
qed

lemma py_iter_obj: "py_iter (JObj kvs) = Inr (map JStr (map fst (items kvs)))"
  by (simp add: case_prod_unfold comp_def)

lemma set_items_keys: "fst ` set (items kvs) = dom (map_of kvs)"
  by (simp add: items_def dom_clearjunk dom_map_of_conv_image_fst)

lemma collect_outer_obj:
  assumes "set k1s \<subseteq> dom (map_of blocks)"
    and "\<forall>k1 v. map_of blocks k1 = Some v \<longrightarrow> (\<exists>inner. v = JObj inner)"
  shows "\<exists>cp'. collect_outer (JObj blocks) (map JStr k1s) cp = Inr cp'
        \<and> dom (map_of cp') = dom (map_of cp) \<union>
             {k. \<exists>k1 inner. k1 \<in> set k1s \<and> map_of blocks k1 = Some (JObj inner)
                   \<and> k \<in> dom (map_of inner) \<and> take 1 k \<noteq> ''g''}
        \<and> (\<forall>k v. map_of cp' k = Some v \<longrightarrow> map_of cp k = Some v \<or>
               (\<exists>k1 inner. k1 \<in> set k1s \<and> map_of blocks k1 = Some (JObj inner) \<and> map_of inner k = Some v))"
  using assms
proof (induction k1s arbitrary: cp)
  case Nil
  then show ?case by simp
next
  case (Cons k1 k1s)
  then obtain inner where inner: "map_of blocks k1 = Some (JObj inner)"
    by (metis domD list.set_intros(1) subsetD)
  have keys: "set (map fst (items inner)) \<subseteq> dom (map_of inner)"
    by (simp add: set_items_keys)
  from collect_inner_obj [OF keys, of cp] obtain cp1 where
    cp1: "collect_inner (JObj inner) (map JStr (map fst (items inner))) cp = Inr cp1"
    and m1: "map_of cp1 = (\<lambda>k. if k \<in> set (map fst (items inner)) \<and> take 1 k \<noteq> ''g''
                               then map_of inner k else map_of cp k)"
    by blast
  from Cons.prems have sub: "set k1s \<subseteq> dom (map_of blocks)" by simp
  from Cons.IH [OF sub Cons.prems(2), of cp1] obtain cp' where
    run: "collect_outer (JObj blocks) (map JStr k1s) cp1 = Inr cp'"
    and d: "dom (map_of cp') = dom (map_of cp1) \<union>
             {k. \<exists>k1 inner. k1 \<in> set k1s \<and> map_of blocks k1 = Some (JObj inner)
                   \<and> k \<in> dom (map_of inner) \<and> take 1 k \<noteq> ''g''}"
    and vals: "\<forall>k v. map_of cp' k = Some v \<longrightarrow> map_of cp1 k = Some v \<or>
               (\<exists>k1 inner. k1 \<in> set k1s \<and> map_of blocks k1 = Some (JObj inner) \<and> map_of inner k = Some v)"
    by blast
  have d1: "dom (map_of cp1) = dom (map_of cp) \<union> {k. k \<in> dom (map_of inner) \<and> take 1 k \<noteq> ''g''}"
    unfolding m1 by (auto simp: set_items_keys split: if_splits)
  have v1: "map_of cp1 k = Some v \<Longrightarrow> map_of cp k = Some v \<or> map_of inner k = Some v" for k v
    unfolding m1 by (auto split: if_splits)
  have "collect_outer (JObj blocks) (map JStr (k1 # k1s)) cp = Inr cp'"
    using inner cp1 run by (simp add: py_iter_obj del: py_iter.simps map_map)
  moreover have "dom (map_of cp') = dom (map_of cp) \<union>
             {k. \<exists>k1' inner. k1' \<in> set (k1 # k1s) \<and> map_of blocks k1' = Some (JObj inner)
                   \<and> k \<in> dom (map_of inner) \<and> take 1 k \<noteq> ''g''}"
    unfolding d d1 using inner by (auto; blast)
  moreover have "\<forall>k v. map_of cp' k = Some v \<longrightarrow> map_of cp k = Some v \<or>
               (\<exists>k1' inner. k1' \<in> set (k1 # k1s) \<and> map_of blocks k1' = Some (JObj inner) \<and> map_of inner k = Some v)"
    using vals v1 inner by (metis list.set_intros(1) list.set_intros(2))
  ultimately show ?case by blast
qed

lemma update_outer_obj:
  assumes "set k1s \<subseteq> dom (map_of blocks)"
    and "\<forall>k1 v. map_of blocks k1 = Some v \<longrightarrow> (\<exists>inner. v = JObj inner)"
  shows "\<exists>cp'. update_outer (JObj blocks) (map JStr k1s) cp = Inr cp'
        \<and> dom (map_of cp') = dom (map_of cp) \<union>
             {k. \<exists>k1 inner. k1 \<in> set k1s \<and> map_of blocks k1 = Some (JObj inner)
                   \<and> k \<in> dom (map_of inner)}
        \<and> (\<forall>k v. map_of cp' k = Some v \<longrightarrow> map_of cp k = Some v \<or>
               (\<exists>k1 inner. k1 \<in> set k1s \<and> map_of blocks k1 = Some (JObj inner) \<and> map_of inner k = Some v))"
  using assms
proof (induction k1s arbitrary: cp)
  case Nil
  then show ?case by simp
next
  case (Cons k1 k1s)
  then obtain inner where inner: "map_of blocks k1 = Some (JObj inner)"
    by (metis domD list.set_intros(1) subsetD)
  define cp1 where "cp1 = update_all inner cp"
  have m1: "map_of cp1 = map_of cp ++ map_of inner"
    by (simp add: cp1_def map_of_update_all)
  from Cons.prems have sub: "set k1s \<subseteq> dom (map_of blocks)" by simp
  from Cons.IH [OF sub Cons.prems(2), of cp1] obtain cp' where
    run: "update_outer (JObj blocks) (map JStr k1s) cp1 = Inr cp'"
    and d: "dom (map_of cp') = dom (map_of cp1) \<union>
             {k. \<exists>k1 inner. k1 \<in> set k1s \<and> map_of blocks k1 = Some (JObj inner)
                   \<and> k \<in> dom (map_of inner)}"
    and vals: "\<forall>k v. map_of cp' k = Some v \<longrightarrow> map_of cp1 k = Some v \<or>
               (\<exists>k1 inner. k1 \<in> set k1s \<and> map_of blocks k1 = Some (JObj inner) \<and> map_of inner k = Some v)"
    by blast
  have d1: "dom (map_of cp1) = dom (map_of cp) \<union> dom (map_of inner)"
    unfolding m1 by auto
  have v1: "map_of cp1 k = Some v \<Longrightarrow> map_of cp k = Some v \<or> map_of inner k = Some v" for k v
    unfolding m1 by auto
  have "update_outer (JObj blocks) (map JStr (k1 # k1s)) cp = Inr cp'"
    using inner run by (simp add: cp1_def)
  moreover have "dom (map_of cp') = dom (map_of cp) \<union>
             {k. \<exists>k1' inner. k1' \<in> set (k1 # k1s) \<and> map_of blocks k1' = Some (JObj inner)
                   \<and> k \<in> dom (map_of inner)}"
    unfolding d d1 using inner by (auto; blast)
  moreover have "\<forall>k v. map_of cp' k = Some v \<longrightarrow> map_of cp k = Some v \<or>
               (\<exists>k1' inner. k1' \<in> set (k1 # k1s) \<and> map_of blocks k1' = Some (JObj inner) \<and> map_of inner k = Some v)"
    using vals v1 inner by (metis list.set_intros(1) list.set_intros(2))
  ultimately show ?case by blast
qed

lemma resolve_continue_obj:
  assumes shape: "\<forall>k1 v. map_of blocks k1 = Some v \<longrightarrow> (\<exists>inner. v = JObj inner)"
  shows "\<exists>cp. resolve_continue (JObj blocks) = Inr cp
     \<and> dom (map_of cp) =
         (if {k2. \<exists>k1 inner. map_of blocks k1 = Some (JObj inner) \<and> k2 \<in> dom (map_of inner) \<and> take 1 k2 \<noteq> ''g''} = {}
          then {k2. \<exists>k1 inner. map_of blocks k1 = Some (JObj inner) \<and> k2 \<in> dom (map_of inner)}
          else {k2. \<exists>k1 inner. map_of blocks k1 = Some (JObj inner) \<and> k2 \<in> dom (map_of inner) \<and> take 1 k2 \<noteq> ''g''})
     \<and> (\<forall>k2 v. map_of cp k2 = Some v \<longrightarrow>
           (\<exists>k1 inner. map_of blocks k1 = Some (JObj inner) \<and> map_of inner k2 = Some v))"
proof -
  let ?ks = "map fst (items blocks)"
  have sub: "set ?ks \<subseteq> dom (map_of blocks)" by (simp add: set_items_keys)
  have mem: "k1 \<in> set ?ks \<longleftrightarrow> k1 \<in> dom (map_of blocks)" for k1
    by (simp add: set_items_keys)
  from collect_outer_obj [OF sub shape, of "[]"] obtain cp1 where
    c1: "collect_outer (JObj blocks) (map JStr ?ks) [] = Inr cp1"
    and d1: "dom (map_of cp1) = {k. \<exists>k1 inner. k1 \<in> set ?ks \<and> map_of blocks k1 = Some (JObj inner)
                   \<and> k \<in> dom (map_of inner) \<and> take 1 k \<noteq> ''g''}"
    and v1: "\<forall>k v. map_of cp1 k = Some v \<longrightarrow>
               (\<exists>k1 inner. k1 \<in> set ?ks \<and> map_of blocks k1 = Some (JObj inner) \<and> map_of inner k = Some v)"
    by auto
  from update_outer_obj [OF sub shape, of "[]"] obtain cp2 where
    c2: "update_outer (JObj blocks) (map JStr ?ks) [] = Inr cp2"
    and d2: "dom (map_of cp2) = {k. \<exists>k1 inner. k1 \<in> set ?ks \<and> map_of blocks k1 = Some (JObj inner)
                   \<and> k \<in> dom (map_of inner)}"
    and v2: "\<forall>k v. map_of cp2 k = Some v \<longrightarrow>
               (\<exists>k1 inner. k1 \<in> set ?ks \<and> map_of blocks k1 = Some (JObj inner) \<and> map_of inner k = Some v)"
    by auto
  have N: "dom (map_of cp1) = {k2. \<exists>k1 inner. map_of blocks k1 = Some (JObj inner) \<and> k2 \<in> dom (map_of inner) \<and> take 1 k2 \<noteq> ''g''}"
    unfolding d1 mem by blast
  have K: "dom (map_of cp2) = {k2. \<exists>k1 inner. map_of blocks k1 = Some (JObj inner) \<and> k2 \<in> dom (map_of inner)}"
    unfolding d2 mem by blast
  have empty: "cp1 = [] \<longleftrightarrow> dom (map_of cp1) = {}"
    by (cases cp1) auto
  show ?thesis
  proof (cases "cp1 = []")
    case True
    then have run: "resolve_continue (JObj blocks) = Inr cp2"
      by (simp add: resolve_continue_def py_iter_obj c1 c2 del: py_iter.simps map_map)
    from True empty have "dom (map_of cp1) = {}" by blast
    then have sel: "{k2. \<exists>k1 inner. map_of blocks k1 = Some (JObj inner) \<and> k2 \<in> dom (map_of inner) \<and> take 1 k2 \<noteq> ''g''} = {}"
      unfolding N .
    from v2 have vals: "\<forall>k2 v. map_of cp2 k2 = Some v \<longrightarrow>
           (\<exists>k1 inner. map_of blocks k1 = Some (JObj inner) \<and> map_of inner k2 = Some v)"
      by blast
    show ?thesis
      unfolding sel if_P [OF refl] using run K vals by blast
  next
    case False
    then have run: "resolve_continue (JObj blocks) = Inr cp1"
      by (simp add: resolve_continue_def py_iter_obj c1 del: py_iter.simps map_map)
    from False empty have "dom (map_of cp1) \<noteq> {}" by blast
    then have sel: "{k2. \<exists>k1 inner. map_of blocks k1 = Some (JObj inner) \<and> k2 \<in> dom (map_of inner) \<and> take 1 k2 \<noteq> ''g''} \<noteq> {}"
      unfolding N .
    from v1 have vals: "\<forall>k2 v. map_of cp1 k2 = Some v \<longrightarrow>
           (\<exists>k1 inner. map_of blocks k1 = Some (JObj inner) \<and> map_of inner k2 = Some v)"
      by blast
    show ?thesis
      unfolding if_not_P [OF sel] using run N vals by blast
  qed
qed

text \<open>
  C4. Let the response be a JSON object whose \<^verbatim>\<open>query-continue\<close> block is an object
  of objects. Then the loop goes on to a next request, and the continuation parameters
  of that request, a new dict \<open>cp\<close>, have as keys exactly the second-level keys of the
  block that do not start with \<^verbatim>\<open>g\<close>, or, if there is no such key, all second-level
  keys of the block; each value is a value of that key in the block.
\<close>

theorem continuation_resolution:
  assumes block: "map_of j ''query-continue'' = Some (JObj blocks)"
    and shape: "\<forall>k1 v. map_of blocks k1 = Some v \<longrightarrow> (\<exists>inner. v = JObj inner)"
  shows "\<exists>cp. resolve_continue (JObj blocks) = Inr cp
     \<and> on_continue (JObj j) w = Goto (AtRequest (length (heap w))) (w\<lparr>heap := heap w @ [cp]\<rparr>)
     \<and> dom (map_of cp) =
         (if {k2. \<exists>k1 inner. map_of blocks k1 = Some (JObj inner) \<and> k2 \<in> dom (map_of inner)
                    \<and> take 1 k2 \<noteq> ''g''} = {}
          then {k2. \<exists>k1 inner. map_of blocks k1 = Some (JObj inner) \<and> k2 \<in> dom (map_of inner)}
          else {k2. \<exists>k1 inner. map_of blocks k1 = Some (JObj inner) \<and> k2 \<in> dom (map_of inner)
                    \<and> take 1 k2 \<noteq> ''g''})
     \<and> (\<forall>k2 v. map_of cp k2 = Some v \<longrightarrow>
           (\<exists>k1 inner. map_of blocks k1 = Some (JObj inner) \<and> map_of inner k2 = Some v))"
proof -
  from resolve_continue_obj [OF shape] obtain cp where
    run: "resolve_continue (JObj blocks) = Inr cp"
    and rest: "dom (map_of cp) =
         (if {k2. \<exists>k1 inner. map_of blocks k1 = Some (JObj inner) \<and> k2 \<in> dom (map_of inner)
                    \<and> take 1 k2 \<noteq> ''g''} = {}
          then {k2. \<exists>k1 inner. map_of blocks k1 = Some (JObj inner) \<and> k2 \<in> dom (map_of inner)}
          else {k2. \<exists>k1 inner. map_of blocks k1 = Some (JObj inner) \<and> k2 \<in> dom (map_of inner)
                    \<and> take 1 k2 \<noteq> ''g''})"
      "\<forall>k2 v. map_of cp k2 = Some v \<longrightarrow>
           (\<exists>k1 inner. map_of blocks k1 = Some (JObj inner) \<and> map_of inner k2 = Some v)"
    by blast
  have "on_continue (JObj j) w = Goto (AtRequest (length (heap w))) (w\<lparr>heap := heap w @ [cp]\<rparr>)"
    using block run
    by (simp add: on_continue_def py_in_obj py_getitem_def and_then_def alloc_def del: py_in.simps)
  with run rest show ?thesis by blast
qed

theorem continuation_resolution_witness:
  "map_of [(''query-continue'', JObj ex_continue)] ''query-continue'' = Some (JObj ex_continue)
   \<and> resolve_continue (JObj ex_continue) = Inr [(''foo'', JInt 1)]
   \<and> (\<exists>cp. resolve_continue (JObj ex_continue) = Inr cp
     \<and> on_continue (JObj [(''query-continue'', JObj ex_continue)]) ex_empty
         = Goto (AtRequest (length (heap ex_empty))) (ex_empty\<lparr>heap := heap ex_empty @ [cp]\<rparr>)
     \<and> dom (map_of cp) =
         (if {k2. \<exists>k1 inner. map_of ex_continue k1 = Some (JObj inner) \<and> k2 \<in> dom (map_of inner)
                    \<and> take 1 k2 \<noteq> ''g''} = {}
          then {k2. \<exists>k1 inner. map_of ex_continue k1 = Some (JObj inner) \<and> k2 \<in> dom (map_of inner)}
          else {k2. \<exists>k1 inner. map_of ex_continue k1 = Some (JObj inner) \<and> k2 \<in> dom (map_of inner)
                    \<and> take 1 k2 \<noteq> ''g''})
     \<and> (\<forall>k2 v. map_of cp k2 = Some v \<longrightarrow>
           (\<exists>k1 inner. map_of ex_continue k1 = Some (JObj inner) \<and> map_of inner k2 = Some v)))"
proof -
  have block: "map_of [(''query-continue'', JObj ex_continue)] ''query-continue'' = Some (JObj ex_continue)"
    by simp
  have shape: "\<forall>k1 v. map_of ex_continue k1 = Some v \<longrightarrow> (\<exists>inner. v = JObj inner)"
    by (simp add: ex_continue_def)
  have val: "resolve_continue (JObj ex_continue) = Inr [(''foo'', JInt 1)]"
    by (simp add: resolve_continue_def ex_continue_def items_def)
  from continuation_resolution [OF block shape, of ex_empty] block shape val
  show ?thesis by blast
qed

subsection \<open>The query generator: what it changes\<close>

lemma query_only_refl [simp]: "query_only w w"
  by (simp add: query_only_def)

lemma query_only_trans: "query_only w1 w2 \<Longrightarrow> query_only w2 w3 \<Longrightarrow> query_only w1 w3"
  by (auto simp: query_only_def)

lemma on_response_world:
  "on_response endpoint base w r = Finish w' g x \<Longrightarrow> w' = w"
  "on_response endpoint base w r = Goto pt w' \<Longrightarrow> w' = w"
  by (auto simp: on_response_def split: sum.splits bool.splits)

lemma on_continue_world:
  "on_continue j w = Finish w' g x \<Longrightarrow> w' = w"
  "on_continue j w = Goto pt w' \<Longrightarrow> \<exists>cp. w' = w\<lparr>heap := heap w @ [cp]\<rparr>"
  by (auto simp: on_continue_def alloc_def split: sum.splits bool.splits)

lemma mwapi_step_query_only:
  "mwapi_step ev endpoint base pt w = Finish w' g x \<Longrightarrow> query_only w w'"
  "mwapi_step ev endpoint base pt w = Goto pt' w' \<Longrightarrow> query_only w w'"
  by (auto simp: mwapi_step_def Let_def query_only_def requests_post_def dict_update_def
      dict_copy_def alloc_def split: point.splits prod.splits
      dest!: on_response_world on_continue_world)

lemma mwapi_loop_query_only:
  assumes "mwapi_loop ev endpoint base pt w = Some y"
  shows "query_only w (fst y)"
proof (rule mwapi_loop.raw_induct [where P = "\<lambda>_ _ _ _ w y. query_only w (fst y)", OF _ assms])
  fix loop :: "env \<Rightarrow> string \<Rightarrow> nat \<Rightarrow> point \<Rightarrow> world \<Rightarrow> (world \<times> gen \<times> (py_error + json)) option"
    and ev1 endpoint1 base1 pt1 w1 y1
  assume IH: "\<And>ev2 endpoint2 base2 pt2 w2 y2.
      loop ev2 endpoint2 base2 pt2 w2 = Some y2 \<Longrightarrow> query_only w2 (fst y2)"
  assume step: "(case mwapi_step ev1 endpoint1 base1 pt1 w1 of
                   Finish w' g r \<Rightarrow> Some (w', g, r)
                 | Goto pt' w' \<Rightarrow> loop ev1 endpoint1 base1 pt' w') = Some y1"
  show "query_only w1 (fst y1)"
  proof (cases "mwapi_step ev1 endpoint1 base1 pt1 w1")
    case (Finish w' g x)
    with step have "y1 = (w', g, x)" by simp
    with mwapi_step_query_only(1) [OF Finish] show ?thesis by simp
  next
    case (Goto pt' w')
    with step have "loop ev1 endpoint1 base1 pt' w' = Some y1" by simp
    then have "query_only w' (fst y1)" by (rule IH)
    with mwapi_step_query_only(2) [OF Goto] show ?thesis by (rule query_only_trans)
  qed
qed

lemma gen_next_query_only:
  "gen_next ev g w = Some (w', g', r) \<Longrightarrow> query_only w w'"
proof (cases g)
  case (Created endpoint params)
  assume run: "gen_next ev g w = Some (w', g', r)"
  define w6 where "w6 = snd (alloc [] (dict_set (fst (dict_copy params w)) ''maxlag'' (JStr ''1'')
      (dict_set (fst (dict_copy params w)) ''rawcontinue'' (JStr '''')
      (dict_set (fst (dict_copy params w)) ''format'' (JStr ''json'')
      (dict_set (fst (dict_copy params w)) ''action'' (JStr ''query'') (snd (dict_copy params w)))))))"
  have "query_only w w6"
    by (simp add: w6_def query_only_def alloc_def dict_copy_def dict_set_def)
  moreover from run Created obtain base cont where "mwapi_loop ev endpoint base (AtRequest cont) w6 = Some (w', g', r)"
    by (auto simp: gen_next_def Let_def w6_def split: prod.splits)
  then have "query_only w6 w'" by (auto dest: mwapi_loop_query_only)
  ultimately show ?thesis by (rule query_only_trans)
next
  case (Suspended endpoint base j)
  assume "gen_next ev g w = Some (w', g', r)"
  with Suspended show ?thesis by (auto simp: gen_next_def dest: mwapi_loop_query_only)
next
  case Closed
  assume "gen_next ev g w = Some (w', g', r)"
  with Closed show ?thesis by (simp add: gen_next_def)
qed

lemma consume_query_only:
  "consume ev n g w = Some (w', g', rs) \<Longrightarrow> query_only w w'"
proof (induction n arbitrary: g w rs)
  case 0
  then show ?case by simp
next
  case (Suc n)
  then show ?case
    by (auto split: option.splits dest!: gen_next_query_only Suc.IH intro: query_only_trans)
qed

text \<open>
  C10. A generator made by \<^verbatim>\<open>mwapi_query(endpoint, params)\<close> never changes the dict
  \<open>params\<close> of its caller: after any number \<open>n\<close> of calls of \<^verbatim>\<open>next\<close> that come back
  (whether they yield, raise or end the sequence), the dict at the caller's address
  has the items it had, and so has every other dict that existed before. The fixed
  parameters and the continuation go to dicts that the generator creates.
\<close>

theorem caller_params_unchanged:
  assumes run: "consume ev n (Created endpoint params) w = Some (w', g', rs)"
    and valid: "params < length (heap w)"
  shows "heap w' ! params = heap w ! params \<and> take (length (heap w)) (heap w') = heap w"
  using consume_query_only [OF run] valid
  by (auto simp: query_only_def nth_append)

lemma update_all_empty [simp]: "update_all [] d = d"
  by (simp add: update_all_def items_def)

lemma gen_next_created:
  assumes "a < length (heap w)"
  shows "gen_next ev (Created ep a) w =
    (case on_response ep (length (heap w))
            (w\<lparr>heap := heap w @ [first_params (heap w ! a), [], first_params (heap w ! a)],
               events := events w @ [HttpPost ep (first_params (heap w ! a))]\<rparr>)
            (http_post ev (length (events w)) ep (first_params (heap w ! a))) of
       Finish w' g r \<Rightarrow> Some (w', g, r)
     | Goto pt' w' \<Rightarrow> mwapi_loop ev ep (length (heap w)) pt' w')"
  using assms
  by (simp add: gen_next_def mwapi_loop_request dict_copy_def alloc_def dict_set_def
      dict_update_def requests_post_def log_event_def Let_def first_params_def nth_append
      list_update_append)

lemma gen_next_first_post:
  assumes run: "gen_next ev (Created ep a) w = Some (w', g, r)" and valid: "a < length (heap w)"
  shows "\<exists>posts. events w' = events w @ HttpPost ep (first_params (heap w ! a)) # posts
           \<and> list_all is_post posts \<and> s3_objects w' = s3_objects w"
proof (cases "on_response ep (length (heap w))
            (w\<lparr>heap := heap w @ [first_params (heap w ! a), [], first_params (heap w ! a)],
               events := events w @ [HttpPost ep (first_params (heap w ! a))]\<rparr>)
            (http_post ev (length (events w)) ep (first_params (heap w ! a)))")
  case (Finish w1 g1 r1)
  from on_response_world(1) [OF Finish] run Finish show ?thesis
    by (auto simp: gen_next_created [OF valid])
next
  case (Goto pt w1)
  with run have "mwapi_loop ev ep (length (heap w)) pt w1 = Some (w', g, r)"
    by (simp add: gen_next_created [OF valid])
  from mwapi_loop_query_only [OF this] on_response_world(2) [OF Goto] show ?thesis
    by (auto simp: query_only_def)
qed

lemma on_response_fragment:
  assumes "\<not> (400 \<le> status \<and> status < 600)"
    "map_of kvs ''error'' = None" "map_of kvs ''warnings'' = None" "map_of kvs ''query'' = Some q"
  shows "on_response endpoint base w (Inr (Response status (Some (JObj kvs))))
           = Finish w (Suspended endpoint base (JObj kvs)) (Inr q)"
  using assms
  by (simp add: on_response_def and_then_def py_in_obj py_getitem_def del: py_in.simps)

lemma ex_env_post:
  "http_post ex_env t ep (first_params (req_params_literal (JInt r))) = Inr (Response 200 (Some (ex_body r)))"
  by (simp add: ex_env_def first_params_def req_params_literal_def update_conv')

lemma ex_env_post_caller:
  "http_post ex_env t ep (first_params [(''revids'', JInt r)]) = Inr (Response 200 (Some (ex_body r)))"
  by (simp add: ex_env_def first_params_def update_conv')

lemma ex_gen_next:
  assumes "a < length (heap w)" "heap w ! a = req_params_literal (JInt r) \<or> heap w ! a = [(''revids'', JInt r)]"
  shows "gen_next ex_env (Created ep a) w =
      Some (w\<lparr>heap := heap w @ [first_params (heap w ! a), [], first_params (heap w ! a)],
               events := events w @ [HttpPost ep (first_params (heap w ! a))]\<rparr>,
            Suspended ep (length (heap w)) (ex_body r),
            Inr (JObj [(''pages'', JObj [(''5'', ex_page r)])]))"
proof -
  have post: "http_post ex_env (length (events w)) ep (first_params (heap w ! a)) = Inr (Response 200 (Some (ex_body r)))"
    using assms(2) ex_env_post ex_env_post_caller by metis
  show ?thesis
    unfolding gen_next_created [OF assms(1)] post ex_body_def
    by (subst on_response_fragment) simp_all
qed

lemma gen_next_suspended:
  "gen_next ev (Suspended ep base j) w = mwapi_loop ev ep base (AtContinue j) w"
  by (simp add: gen_next_def)

lemma ex_consume:
  "\<exists>w' rs. consume ex_env 2 (Created ''https://w/api.php'' 0) ex_caller = Some (w', Closed, rs)"
proof -
  have "(0::nat) < length (heap ex_caller)" "heap ex_caller ! 0 = req_params_literal (JInt 1) \<or> heap ex_caller ! 0 = [(''revids'', JInt 1)]"
    by (simp_all add: ex_caller_def)
  note first = ex_gen_next [OF this]
  show ?thesis
    by (simp add: eval_nat_numeral first gen_next_suspended mwapi_loop_continue on_continue_def
        ex_body_def)
qed

theorem caller_params_unchanged_witness:
  "(0::nat) < length (heap ex_caller)
   \<and> (\<exists>w' rs. consume ex_env 2 (Created ''https://w/api.php'' 0) ex_caller = Some (w', Closed, rs)
         \<and> heap w' ! 0 = heap ex_caller ! 0 \<and> take (length (heap ex_caller)) (heap w') = heap ex_caller)"
proof -
  have valid: "(0::nat) < length (heap ex_caller)"
    by (simp add: ex_caller_def)
  from ex_consume obtain w' rs where
    run: "consume ex_env 2 (Created ''https://w/api.php'' 0) ex_caller = Some (w', Closed, rs)"
    by blast
  from caller_params_unchanged [OF run valid] run valid show ?thesis by blast
qed

subsection \<open>The archiver: the stages of one call\<close>

lemma archived_refl [simp]: "archived w w"
  by (simp add: archived_def)

lemma archived_trans:
  assumes "archived w1 w2" "archived w2 w3"
  shows "archived w1 w3"
proof -
  from assms(1) obtain new1 where
    e1: "events w2 = events w1 @ new1"
    and f1: "\<And>b k c. S3Put b k (Gzip c) \<in> set new1 \<Longrightarrow> s3_objects w1 (b, k) = None"
    and m1: "\<And>x. s3_objects w1 x \<noteq> None \<Longrightarrow> s3_objects w2 x \<noteq> None"
    unfolding archived_def by blast
  from assms(2) obtain new2 where
    e2: "events w3 = events w2 @ new2"
    and f2: "\<And>b k c. S3Put b k (Gzip c) \<in> set new2 \<Longrightarrow> s3_objects w2 (b, k) = None"
    and m2: "\<And>x. s3_objects w2 x \<noteq> None \<Longrightarrow> s3_objects w3 x \<noteq> None"
    unfolding archived_def by blast
  have "events w3 = events w1 @ (new1 @ new2)"
    by (simp add: e1 e2)
  moreover have "s3_objects w1 (b, k) = None" if "S3Put b k (Gzip c) \<in> set (new1 @ new2)" for b k c
  proof (cases "S3Put b k (Gzip c) \<in> set new1")
    case True
    then show ?thesis by (rule f1)
  next
    case False
    with that have "S3Put b k (Gzip c) \<in> set new2" by simp
    then have "s3_objects w2 (b, k) = None" by (rule f2)
    with m1 [of "(b, k)"] show ?thesis by blast
  qed
  moreover have "s3_objects w3 x \<noteq> None" if "s3_objects w1 x \<noteq> None" for x
    using that m1 m2 by blast
  ultimately show ?thesis
    unfolding archived_def by blast
qed

lemma query_only_archived: "query_only w w' \<Longrightarrow> archived w w'"
  by (force simp: query_only_def archived_def list_all_iff)

lemma archived_heap [simp]: "archived w (w'\<lparr>heap := h\<rparr>) = archived w w'"
  "archived (w\<lparr>heap := h\<rparr>) w' = archived w w'"
  by (simp_all add: archived_def)

lemma archived_head: "archived w (log_event (S3Head b k) w)"
  by (simp add: archived_def)

lemma s3_key_exists_archived:
  "s3_key_exists ev b k w = (w', r) \<Longrightarrow> archived w w' \<and> s3_objects w' = s3_objects w"
  by (auto simp: s3_key_exists_eq archived_head)

lemma put_object_yaml_archived:
  "put_object ev b k (Yaml v) w = (w', r) \<Longrightarrow> archived w w'"
  by (auto simp: put_object_def archived_def split: option.splits)

lemma put_object_fresh_archived:
  "put_object ev b k body w = (w', r) \<Longrightarrow> s3_objects w (b, k) = None \<Longrightarrow> archived w w'"
  by (auto simp: put_object_def archived_def split: option.splits)


lemma handle_revision_cases:
  assumes "handle_revision ev (Suc d) wk p r w = Some (w', res)"
  obtains (root) "py_eq r (JInt 0)" "w' = w" "res = Inr ()"
  | (probe_failed) e where "\<not> py_eq r (JInt 0)"
      "s3_key_for_revision_metadata_exists ev wk p r w = (w', Inl e)" "res = Inl e"
  | (known) "\<not> py_eq r (JInt 0)"
      "s3_key_for_revision_metadata_exists ev wk p r w = (w', Inr True)" "res = Inr ()"
  | (content_probe_failed) w1 e where "\<not> py_eq r (JInt 0)"
      "s3_key_for_revision_metadata_exists ev wk p r w = (w1, Inr False)"
      "s3_key_for_revision_content_exists ev wk p r (snd (alloc (req_params_literal r) w1)) = (w', Inl e)"
      "res = Inl e"
  | (query_failed) w1 w3 hc g e where "\<not> py_eq r (JInt 0)"
      "s3_key_for_revision_metadata_exists ev wk p r w = (w1, Inr False)"
      "s3_key_for_revision_content_exists ev wk p r (snd (alloc (req_params_literal r) w1)) = (w3, Inr hc)"
      "gen_next ev (Created (api wk) (length (heap w1)))
         (if hc then w3 else request_content wk (length (heap w1)) w3) = Some (w', g, Inl e)"
      "res = Inl e"
  | (invalid) w1 w3 hc g result e where "\<not> py_eq r (JInt 0)"
      "s3_key_for_revision_metadata_exists ev wk p r w = (w1, Inr False)"
      "s3_key_for_revision_content_exists ev wk p r (snd (alloc (req_params_literal r) w1)) = (w3, Inr hc)"
      "gen_next ev (Created (api wk) (length (heap w1)))
         (if hc then w3 else request_content wk (length (heap w1)) w3) = Some (w', g, Inr result)"
      "check_revision wk p r (\<not> hc) result = Inl e"
      "res = Inl e"
  | (content_put_failed) w1 w3 hc w5 g result f e where "\<not> py_eq r (JInt 0)"
      "s3_key_for_revision_metadata_exists ev wk p r w = (w1, Inr False)"
      "s3_key_for_revision_content_exists ev wk p r (snd (alloc (req_params_literal r) w1)) = (w3, Inr hc)"
      "gen_next ev (Created (api wk) (length (heap w1)))
         (if hc then w3 else request_content wk (length (heap w1)) w3) = Some (w5, g, Inr result)"
      "check_revision wk p r (\<not> hc) result = Inr f"
      "(case f_content f of None \<Rightarrow> (w5, Inr ()) | Some c \<Rightarrow> s3_put_revision_content ev wk p r c w5) = (w', Inl e)"
      "res = Inl e"
  | (ancestor_failed) w1 w3 hc w5 g result f w6 e where "\<not> py_eq r (JInt 0)"
      "s3_key_for_revision_metadata_exists ev wk p r w = (w1, Inr False)"
      "s3_key_for_revision_content_exists ev wk p r (snd (alloc (req_params_literal r) w1)) = (w3, Inr hc)"
      "gen_next ev (Created (api wk) (length (heap w1)))
         (if hc then w3 else request_content wk (length (heap w1)) w3) = Some (w5, g, Inr result)"
      "check_revision wk p r (\<not> hc) result = Inr f"
      "(case f_content f of None \<Rightarrow> (w5, Inr ()) | Some c \<Rightarrow> s3_put_revision_content ev wk p r c w5) = (w6, Inr ())"
      "handle_revision ev d wk p (f_parentid f) w6 = Some (w', Inl e)"
      "res = Inl e"
  | (stored) w1 w3 hc w5 g result f w6 w7 where "\<not> py_eq r (JInt 0)"
      "s3_key_for_revision_metadata_exists ev wk p r w = (w1, Inr False)"
      "s3_key_for_revision_content_exists ev wk p r (snd (alloc (req_params_literal r) w1)) = (w3, Inr hc)"
      "gen_next ev (Created (api wk) (length (heap w1)))
         (if hc then w3 else request_content wk (length (heap w1)) w3) = Some (w5, g, Inr result)"
      "check_revision wk p r (\<not> hc) result = Inr f"
      "(case f_content f of None \<Rightarrow> (w5, Inr ()) | Some c \<Rightarrow> s3_put_revision_content ev wk p r c w5) = (w6, Inr ())"
      "handle_revision ev d wk p (f_parentid f) w6 = Some (w7, Inr ())"
      "s3_put_revision_metadata ev wk p r (metadata_value r f) w7 = (w', res)"
proof (cases "py_eq r (JInt 0)")
  case True
  with assms show thesis by (intro root) simp_all
next
  case nz: False
  obtain w1 r1 where m: "s3_key_for_revision_metadata_exists ev wk p r w = (w1, r1)"
    by fastforce
  show thesis
  proof (cases r1)
    case (Inl e)
    with assms nz m show thesis by (intro probe_failed [of e]) simp_all
  next
    case (Inr found)
    show thesis
    proof (cases found)
      case True
      with assms nz m Inr show thesis by (intro known) simp_all
    next
      case False
      then have absent: "found = False" by simp
      note m1 = m [unfolded Inr absent]
      obtain w3 r3 where c: "s3_key_for_revision_content_exists ev wk p r
          (snd (alloc (req_params_literal r) w1)) = (w3, r3)"
        by fastforce
      then have c': "s3_key_for_revision_content_exists ev wk p r
          (w1\<lparr>heap := heap w1 @ [req_params_literal r]\<rparr>) = (w3, r3)"
        by (simp add: alloc_def)
      show thesis
      proof (cases r3)
        case (Inl e)
        with assms nz m1 c' show thesis
          by (intro content_probe_failed [of w1 e]) (simp_all add: alloc_def)
      next
        case (Inr hc)
        note c1 = c [unfolded Inr]
        note c1' = c' [unfolded Inr]
        let ?w4 = "if hc then w3 else request_content wk (length (heap w1)) w3"
        from assms nz m1 c1' obtain y where q: "gen_next ev (Created (api wk) (length (heap w1))) ?w4 = Some y"
          by (cases "gen_next ev (Created (api wk) (length (heap w1))) ?w4")
            (auto simp: alloc_def Let_def split: if_splits)
        obtain w5 g rq where y: "y = (w5, g, rq)" by (cases y)
        note q1 = q [unfolded y]
        show thesis
        proof (cases rq)
          case (Inl e)
          with assms nz m1 c1' q1 show thesis
            by (intro query_failed [of w1 w3 hc g e] m1 c1 nz)
              (auto simp: alloc_def Let_def split: if_splits)
        next
          case (Inr result)
          note q2 = q1 [unfolded Inr]
          show thesis
          proof (cases "check_revision wk p r (\<not> hc) result")
            case (Inl e)
            with assms nz m1 c1' q2 show thesis
              by (intro invalid [of w1 w3 hc g result e] m1 c1 nz)
                (auto simp: alloc_def Let_def split: if_splits)
          next
            case (Inr f)
            note v = Inr
            obtain w6 r6 where cp: "(case f_content f of None \<Rightarrow> (w5, Inr ())
                | Some c \<Rightarrow> s3_put_revision_content ev wk p r c w5) = (w6, r6)"
              by fastforce
            show thesis
            proof (cases r6)
              case (Inl e)
              with assms nz m1 c1' q2 v cp show thesis
                by (intro content_put_failed [of w1 w3 hc w5 g result f e] m1 c1 nz v)
                  (auto simp: alloc_def Let_def split: if_splits)
            next
              case (Inr u)
              note cp1 = cp [unfolded Inr]
              from assms nz m1 c1' q2 v cp1 obtain z where
                rec: "handle_revision ev d wk p (f_parentid f) w6 = Some z"
                by (cases "handle_revision ev d wk p (f_parentid f) w6")
                  (auto simp: alloc_def Let_def split: if_splits)
              obtain w7 r7 where z: "z = (w7, r7)" by (cases z)
              note rec1 = rec [unfolded z]
              show thesis
              proof (cases r7)
                case (Inl e)
                with assms nz m1 c1' q2 v cp1 rec1 show thesis
                  by (intro ancestor_failed [of w1 w3 hc w5 g result f w6 e] m1 c1 nz v)
                    (auto simp: alloc_def Let_def split: if_splits)
              next
                case (Inr u')
                with assms nz m1 c1' q2 v cp1 rec1 show thesis
                  by (intro stored [of w1 w3 hc w5 g result f w6 w7] m1 c1 nz v)
                    (auto simp: alloc_def Let_def split: if_splits)
              qed
            qed
          qed
        qed
      qed
    qed
  qed
qed


lemma and_then_Inr: "and_then m k = Inr y \<Longrightarrow> \<exists>x. m = Inr x \<and> k x = Inr y"
  by (cases m) (simp_all add: and_then_def)

lemma py_assert_Inr: "py_assert c k = Inr y \<Longrightarrow> c = Inr True \<and> k = Inr y"
  by (cases c) (auto simp: py_assert_def split: if_splits)

lemma metadata_probe:
  assumes "s3_key_for_revision_metadata_exists ev wk p r w = (w1, Inr found)"
  shows "\<exists>mkey. s3_key_for_revision_metadata wk p r = Inr mkey
           \<and> w1 = log_event (S3Head (s3_bucket wk) mkey) w
           \<and> found = (s3_objects w (s3_bucket wk, mkey) \<noteq> None)"
  using assms
  by (auto simp: s3_key_for_revision_metadata_exists_def s3_key_exists_eq
      split: sum.splits option.splits)

lemma content_probe:
  assumes "s3_key_for_revision_content_exists ev wk p r w = (w1, Inr found)"
  shows "\<exists>ckey. s3_key_for_revision_content wk p r = Inr ckey
           \<and> w1 = log_event (S3Head (s3_bucket wk) ckey) w
           \<and> found = (s3_objects w (s3_bucket wk, ckey) \<noteq> None)"
  using assms
  by (auto simp: s3_key_for_revision_content_exists_def s3_key_exists_eq
      split: sum.splits option.splits)

lemma probe_archived:
  "s3_key_for_revision_metadata_exists ev wk p r w = (w', res) \<Longrightarrow> archived w w'"
  "s3_key_for_revision_content_exists ev wk p r w = (w', res) \<Longrightarrow> archived w w'"
  by (auto simp: s3_key_for_revision_metadata_exists_def s3_key_for_revision_content_exists_def
      s3_key_exists_eq archived_head split: sum.splits)

lemma request_content_frame [simp]:
  "s3_objects (request_content wk a w) = s3_objects w"
  "events (request_content wk a w) = events w"
  by (simp_all add: request_content_def dict_set_def Let_def split: option.splits)

text \<open>Lines 188 to 204 when the metadata is missing: two HEADs, then only POSTs.\<close>

lemma fetch_stage:
  assumes m: "s3_key_for_revision_metadata_exists ev wk p r w = (w1, Inr False)"
    and c: "s3_key_for_revision_content_exists ev wk p r (snd (alloc (req_params_literal r) w1)) = (w3, Inr hc)"
    and q: "gen_next ev (Created (api wk) (length (heap w1)))
              (if hc then w3 else request_content wk (length (heap w1)) w3) = Some (w5, g, rq)"
  shows "\<exists>mkey ckey posts.
           s3_key_for_revision_metadata wk p r = Inr mkey
         \<and> s3_key_for_revision_content wk p r = Inr ckey
         \<and> s3_objects w (s3_bucket wk, mkey) = None
         \<and> hc = (s3_objects w (s3_bucket wk, ckey) \<noteq> None)
         \<and> events w5 = events w @ [S3Head (s3_bucket wk) mkey, S3Head (s3_bucket wk) ckey] @ posts
         \<and> list_all is_post posts
         \<and> s3_objects w5 = s3_objects w"
proof -
  from metadata_probe [OF m] obtain mkey where
    mkey: "s3_key_for_revision_metadata wk p r = Inr mkey"
    and w1: "w1 = log_event (S3Head (s3_bucket wk) mkey) w"
    and absent: "s3_objects w (s3_bucket wk, mkey) = None"
    by auto
  from content_probe [OF c] obtain ckey where
    ckey: "s3_key_for_revision_content wk p r = Inr ckey"
    and w3: "w3 = log_event (S3Head (s3_bucket wk) ckey) (snd (alloc (req_params_literal r) w1))"
    and hc: "hc = (s3_objects w1 (s3_bucket wk, ckey) \<noteq> None)"
    by (auto simp: alloc_def)
  from gen_next_query_only [OF q] obtain posts where
    "events w5 = events (if hc then w3 else request_content wk (length (heap w1)) w3) @ posts"
    "list_all is_post posts"
    "s3_objects w5 = s3_objects (if hc then w3 else request_content wk (length (heap w1)) w3)"
    by (auto simp: query_only_def)
  with mkey ckey absent hc show ?thesis
    by (auto simp: w1 w3 alloc_def)
qed

lemma fetch_stage_archived:
  assumes "s3_key_for_revision_metadata_exists ev wk p r w = (w1, Inr False)"
    and "s3_key_for_revision_content_exists ev wk p r (snd (alloc (req_params_literal r) w1)) = (w3, Inr hc)"
    and "gen_next ev (Created (api wk) (length (heap w1)))
              (if hc then w3 else request_content wk (length (heap w1)) w3) = Some (w5, g, rq)"
  shows "archived w w5"
  using fetch_stage [OF assms] by (force simp: archived_def list_all_iff)

lemma check_revision_content:
  assumes "check_revision wk p r need result = Inr f"
  shows "(f_content f \<noteq> None) = need"
  using assms unfolding check_revision_def
  by (auto dest!: and_then_Inr py_assert_Inr split: if_splits)

lemma content_put:
  assumes put: "(case f_content f of None \<Rightarrow> (w5, Inr ())
             | Some c \<Rightarrow> s3_put_revision_content ev wk p r c w5) = (w6, res)"
    and key: "s3_key_for_revision_content wk p r = Inr ckey"
  shows "w6 = w5 \<or> (\<exists>s. f_content f = Some (JStr s)
           \<and> events w6 = events w5 @ [S3Put (s3_bucket wk) ckey (Gzip s)]
           \<and> (s3_objects w6 = s3_objects w5
                \<or> s3_objects w6 = (s3_objects w5)((s3_bucket wk, ckey) \<mapsto> Gzip s)))"
  using assms
  by (auto simp: s3_put_revision_content_def put_object_def
      split: option.splits json.splits)

lemma metadata_put:
  assumes "s3_put_revision_metadata ev wk p r v w7 = (w', res)"
    and "s3_key_for_revision_metadata wk p r = Inr mkey"
  shows "events w' = events w7 @ [S3Put (s3_bucket wk) mkey (Yaml v)]
         \<and> heap w' = heap w7
         \<and> (res = Inr () \<longrightarrow> s3_objects w' = (s3_objects w7)((s3_bucket wk, mkey) \<mapsto> Yaml v))
         \<and> (res \<noteq> Inr () \<longrightarrow> s3_objects w' = s3_objects w7)"
  using assms
  by (auto simp: s3_put_revision_metadata_def put_object_def split: option.splits)

lemma metadata_put_archived:
  "s3_put_revision_metadata ev wk p r v w7 = (w', res) \<Longrightarrow> archived w7 w'"
  by (auto simp: s3_put_revision_metadata_def put_object_yaml_archived split: sum.splits)

lemma content_put_archived:
  assumes put: "(case f_content f of None \<Rightarrow> (w5, Inr ())
             | Some c \<Rightarrow> s3_put_revision_content ev wk p r c w5) = (w6, res)"
    and key: "s3_key_for_revision_content wk p r = Inr ckey"
    and fresh: "f_content f \<noteq> None \<longrightarrow> s3_objects w5 (s3_bucket wk, ckey) = None"
  shows "archived w5 w6"
  using assms
  by (auto simp: s3_put_revision_content_def put_object_fresh_archived
      split: option.splits json.splits)

subsection \<open>The archiver: what a whole call does to the bucket\<close>

lemma handle_revision_archived:
  "handle_revision ev depth wk p r w = Some (w', res) \<Longrightarrow> archived w w'"
proof (induction depth arbitrary: r w w' res)
  case 0
  then show ?case by simp
next
  case (Suc d)
  from Suc.prems show ?case
  proof (cases rule: handle_revision_cases)
    case root
    then show ?thesis by simp
  next
    case (probe_failed e)
    then show ?thesis by (simp add: probe_archived)
  next
    case known
    then show ?thesis by (simp add: probe_archived)
  next
    case (content_probe_failed w1 e)
    from probe_archived(1) [OF content_probe_failed(2)] have "archived w w1" .
    moreover from probe_archived(2) [OF content_probe_failed(3)] have "archived w1 w'"
      by (simp add: alloc_def)
    ultimately show ?thesis by (rule archived_trans)
  next
    case (query_failed w1 w3 hc g e)
    then show ?thesis by (blast intro: fetch_stage_archived)
  next
    case (invalid w1 w3 hc g result e)
    then show ?thesis by (blast intro: fetch_stage_archived)
  next
    case (content_put_failed w1 w3 hc w5 g result f e)
    from fetch_stage [OF content_put_failed(2,3,4)] check_revision_content [OF content_put_failed(5)]
    obtain ckey where "s3_key_for_revision_content wk p r = Inr ckey"
      "f_content f \<noteq> None \<longrightarrow> s3_objects w5 (s3_bucket wk, ckey) = None"
      by auto
    with content_put_failed(6) have "archived w5 w'" by (rule content_put_archived)
    with fetch_stage_archived [OF content_put_failed(2,3,4)] show ?thesis
      by (rule archived_trans)
  next
    case (ancestor_failed w1 w3 hc w5 g result f w6 e)
    from fetch_stage [OF ancestor_failed(2,3,4)] check_revision_content [OF ancestor_failed(5)]
    obtain ckey where "s3_key_for_revision_content wk p r = Inr ckey"
      "f_content f \<noteq> None \<longrightarrow> s3_objects w5 (s3_bucket wk, ckey) = None"
      by auto
    with ancestor_failed(6) have "archived w5 w6" by (rule content_put_archived)
    with fetch_stage_archived [OF ancestor_failed(2,3,4)] have "archived w w6"
      by (rule archived_trans)
    moreover from ancestor_failed(7) have "archived w6 w'" by (rule Suc.IH)
    ultimately show ?thesis by (rule archived_trans)
  next
    case (stored w1 w3 hc w5 g result f w6 w7)
    from fetch_stage [OF stored(2,3,4)] check_revision_content [OF stored(5)]
    obtain ckey where "s3_key_for_revision_content wk p r = Inr ckey"
      "f_content f \<noteq> None \<longrightarrow> s3_objects w5 (s3_bucket wk, ckey) = None"
      by auto
    with stored(6) have "archived w5 w6" by (rule content_put_archived)
    with fetch_stage_archived [OF stored(2,3,4)] have "archived w w6"
      by (rule archived_trans)
    moreover from stored(7) have "archived w6 w7" by (rule Suc.IH)
    moreover from stored(8) have "archived w7 w'" by (rule metadata_put_archived)
    ultimately show ?thesis by (blast intro: archived_trans)
  qed
qed

lemma archived_events: "archived w w' \<Longrightarrow> events w' = events w @ new_events w w'"
  by (auto simp: archived_def new_events_def)

lemma new_events_append: "events w' = events w @ es \<Longrightarrow> new_events w w' = es"
  by (simp add: new_events_def)

lemma known_revision:
  assumes key: "s3_key_for_revision_metadata wk pageid revid = Inr key"
    and present: "s3_objects w (s3_bucket wk, key) \<noteq> None"
  shows "\<exists>w' res. handle_revision ev (Suc depth) wk pageid revid w = Some (w', res)
           \<and> s3_objects w' = s3_objects w \<and> heap w' = heap w
           \<and> (events w' = events w \<or> events w' = events w @ [S3Head (s3_bucket wk) key])
           \<and> (head_fault ev (length (events w)) (s3_bucket wk) key = None \<longrightarrow> res = Inr ())"
  using assms
  by (auto simp: s3_key_for_revision_metadata_exists_def s3_key_exists_eq split: option.splits)

text \<open>After a call that returned, the metadata of the revision is in the bucket.\<close>

lemma handle_revision_stores:
  assumes run: "handle_revision ev depth wk pageid revid w = Some (w', Inr ())"
    and nonroot: "\<not> py_eq revid (JInt 0)"
  shows "\<exists>key. s3_key_for_revision_metadata wk pageid revid = Inr key
           \<and> s3_objects w' (s3_bucket wk, key) \<noteq> None"
proof (cases depth)
  case 0
  with run show ?thesis by simp
next
  case (Suc d)
  from run [unfolded Suc] show ?thesis
  proof (cases rule: handle_revision_cases)
    case root
    with nonroot show ?thesis by simp
  next
    case known
    from metadata_probe [OF known(2)] show ?thesis by auto
  next
    case (stored w1 w3 hc w5 g result f w6 w7)
    from metadata_probe [OF stored(2)] obtain mkey where
      mkey: "s3_key_for_revision_metadata wk pageid revid = Inr mkey" by blast
    from metadata_put [OF stored(8) mkey] mkey show ?thesis by auto
  qed simp_all
qed

lemma fetch_without_content:
  assumes m: "s3_key_for_revision_metadata_exists ev wk p r w = (w1, Inr False)"
    and c: "s3_key_for_revision_content_exists ev wk p r (snd (alloc (req_params_literal r) w1)) = (w3, Inr True)"
    and q: "gen_next ev (Created (api wk) (length (heap w1))) w3 = Some (w5, g, rq)"
  shows "\<exists>mkey ckey posts.
           s3_key_for_revision_metadata wk p r = Inr mkey
         \<and> s3_key_for_revision_content wk p r = Inr ckey
         \<and> events w5 = events w @ [S3Head (s3_bucket wk) mkey, S3Head (s3_bucket wk) ckey,
               HttpPost (api wk) (first_params (req_params_literal r))] @ posts
         \<and> list_all is_post posts"
proof -
  from metadata_probe [OF m] obtain mkey where
    mkey: "s3_key_for_revision_metadata wk p r = Inr mkey"
    and w1: "w1 = log_event (S3Head (s3_bucket wk) mkey) w"
    by auto
  from content_probe [OF c] obtain ckey where
    ckey: "s3_key_for_revision_content wk p r = Inr ckey"
    and w3: "w3 = log_event (S3Head (s3_bucket wk) ckey) (snd (alloc (req_params_literal r) w1))"
    by (auto simp: alloc_def)
  have valid: "length (heap w1) < length (heap w3)"
    and lit: "heap w3 ! length (heap w1) = req_params_literal r"
    by (simp_all add: w3 alloc_def)
  from gen_next_first_post [OF q valid] obtain posts where
    "events w5 = events w3 @ HttpPost (api wk) (first_params (heap w3 ! length (heap w1))) # posts"
    "list_all is_post posts"
    by blast
  with mkey ckey show ?thesis
    by (auto simp: lit w1 w3 alloc_def)
qed

subsection \<open>Concrete runs on the small wiki\<close>

lemma int_08d_1: "int_08d 1 = ''00000001''"
  by (simp add: int_08d_def zfill_def dec_nat.simps digit_char_def eval_nat_numeral)

lemma ex_keys_1:
  "s3_key_for_revision_metadata ex_wiki (JInt 5) (JInt 1) = Inr ''x/page_00000005/rev_00000001.yaml''"
  "s3_key_for_revision_content ex_wiki (JInt 5) (JInt 1) = Inr ''x/page_00000005/rev_00000001_data.gz''"
  by (simp_all add: s3_key_for_revision_metadata_def s3_key_for_revision_content_def and_then_def
      int_08d_1 int_08d_5 ex_wiki_def)

lemma dec_int_5: "dec_int 5 = ''5''"
  by (simp add: dec_int_def dec_nat_5)

lemma ex_check:
  "check_revision ex_wiki (JInt 5) (JInt r) need (JObj [(''pages'', JObj [(''5'', ex_page r)])]) =
     Inr \<lparr>f_pageid = JInt 5, f_title = JStr ''Main'', f_fullurl = JStr ''https://w/Main'',
          f_parentid = JInt (r - 1), f_user = JStr ''ann'', f_timestamp = JStr ''2020'',
          f_comment = JStr [], f_content = (if need then Some (JStr ''text'') else None)\<rparr>"
  by (simp add: check_revision_def dec_int_5 py_assert_def and_then_def py_getitem_def
      py_getitem0_def seq_index_def items_def py_eq_def ex_page_def ex_revision_def
      extract_content_def ex_wiki_def)

lemma ex_env_faults [simp]:
  "head_fault ex_env t b k = None" "put_fault ex_env t b k = None"
  by (simp_all add: ex_env_def)

lemma ex_wiki_fields [simp]:
  "s3_bucket ex_wiki = ''b''" "api ex_wiki = ''https://w/api.php''" "slots ex_wiki = None"
  by (simp_all add: ex_wiki_def)

lemma ex_run_content_only:
  "\<exists>w'. handle_revision ex_env (Suc (Suc 0)) ex_wiki (JInt 5) (JInt 1) ex_content_only = Some (w', Inr ())"
  by (simp add: py_eq_def s3_key_for_revision_metadata_exists_def
      s3_key_for_revision_content_exists_def ex_keys_1 s3_key_exists_eq alloc_def
      ex_content_only_def ex_gen_next [where r = 1 and a = 0] ex_check
      s3_put_revision_metadata_def put_object_def)


subsection \<open>The archiver: idempotence\<close>

text \<open>
  C2. After a call that returned, a second call for the same page and revision, in
  the world the first one left, makes no put and no request to the wiki and leaves the
  bucket as it is; it returns normally unless its one HEAD fails with a fault of S3.
  Nothing is assumed of the wiki between the calls: the second call does not ask it.
  (A first call that raises ends the program, so there is no second call in sequence
  after it.)
\<close>

theorem archive_idempotent:
  assumes first: "handle_revision ev depth wk pageid revid w = Some (w1, Inr ())"
  shows "\<exists>w2 res. handle_revision ev (Suc depth') wk pageid revid w1 = Some (w2, res)
           \<and> s3_objects w2 = s3_objects w1
           \<and> filter is_put (new_events w1 w2) = []
           \<and> filter is_post (new_events w1 w2) = []
           \<and> (\<forall>key. s3_key_for_revision_metadata wk pageid revid = Inr key
                  \<and> head_fault ev (length (events w1)) (s3_bucket wk) key = None \<longrightarrow> res = Inr ())"
proof (cases "py_eq revid (JInt 0)")
  case True
  then show ?thesis by (simp add: new_events_def)
next
  case False
  from handle_revision_stores [OF first False] obtain key where
    key: "s3_key_for_revision_metadata wk pageid revid = Inr key"
    and present: "s3_objects w1 (s3_bucket wk, key) \<noteq> None"
    by blast
  from known_revision [OF key present, of ev depth'] obtain w2 res where
    run: "handle_revision ev (Suc depth') wk pageid revid w1 = Some (w2, res)"
    and store: "s3_objects w2 = s3_objects w1"
    and evs: "events w2 = events w1 \<or> events w2 = events w1 @ [S3Head (s3_bucket wk) key]"
    and ok: "head_fault ev (length (events w1)) (s3_bucket wk) key = None \<longrightarrow> res = Inr ()"
    by (elim exE conjE) (rule that)
  from evs have "filter is_put (new_events w1 w2) = []" "filter is_post (new_events w1 w2) = []"
    by (auto simp: new_events_def)
  with run store ok key show ?thesis by auto
qed


theorem archive_idempotent_witness:
  "\<exists>w1. handle_revision ex_env (Suc (Suc 0)) ex_wiki (JInt 5) (JInt 1) ex_content_only = Some (w1, Inr ())
     \<and> (\<exists>w2 res. handle_revision ex_env (Suc 0) ex_wiki (JInt 5) (JInt 1) w1 = Some (w2, res)
           \<and> s3_objects w2 = s3_objects w1
           \<and> filter is_put (new_events w1 w2) = []
           \<and> filter is_post (new_events w1 w2) = []
           \<and> res = Inr ())"
proof -
  from ex_run_content_only obtain w1 where
    first: "handle_revision ex_env (Suc (Suc 0)) ex_wiki (JInt 5) (JInt 1) ex_content_only = Some (w1, Inr ())"
    by blast
  from archive_idempotent [OF first, of 0] first show ?thesis
    by (auto simp: ex_keys_1)
qed

subsection \<open>The archiver: content without metadata\<close>

lemma archived_no_content_put:
  assumes "archived w w'" and "s3_objects w (b, k) \<noteq> None"
  shows "S3Put b k (Gzip c) \<notin> set (new_events w w')"
proof -
  from assms(1) obtain new where
    new: "events w' = events w @ new"
    and fresh: "\<And>b k c. S3Put b k (Gzip c) \<in> set new \<Longrightarrow> s3_objects w (b, k) = None"
    unfolding archived_def by blast
  from new have "new_events w w' = new" by (rule new_events_append)
  with fresh [of b k c] assms(2) show ?thesis by auto
qed

text \<open>
  C8. Let the content of (pageid, revid) be in the bucket and its metadata not, revid
  not 0. Then no call to \<open>handle_revision\<close> puts a content object under that content
  key; the request it sends has \<^verbatim>\<open>rvprop\<close> without \<^verbatim>\<open>content\<close> and no
  \<^verbatim>\<open>rvslots\<close>; and when the call returns, its events are the two HEADs, that
  request (and further requests of the same query, if the wiki asked to continue),
  the events of archiving the parent, and last the put of the metadata, which is then
  in the bucket.
\<close>

theorem content_without_metadata:
  assumes mkey: "s3_key_for_revision_metadata wk pageid revid = Inr mkey"
    and ckey: "s3_key_for_revision_content wk pageid revid = Inr ckey"
    and no_metadata: "s3_objects w (s3_bucket wk, mkey) = None"
    and content: "s3_objects w (s3_bucket wk, ckey) = Some body"
    and nonroot: "\<not> py_eq revid (JInt 0)"
    and run: "handle_revision ev (Suc depth) wk pageid revid w = Some (w', res)"
  shows "(\<forall>c. S3Put (s3_bucket wk) ckey (Gzip c) \<notin> set (new_events w w'))
     \<and> map_of (first_params (req_params_literal revid)) ''rvprop'' = Some (JStr ''ids|user|timestamp|comment'')
     \<and> map_of (first_params (req_params_literal revid)) ''rvslots'' = None
     \<and> (res = Inr () \<longrightarrow>
          (\<exists>posts f w6 w7.
             new_events w w' =
               [S3Head (s3_bucket wk) mkey, S3Head (s3_bucket wk) ckey,
                HttpPost (api wk) (first_params (req_params_literal revid))]
               @ posts @ new_events w6 w7
               @ [S3Put (s3_bucket wk) mkey (Yaml (metadata_value revid f))]
           \<and> list_all is_post posts
           \<and> handle_revision ev depth wk pageid (f_parentid f) w6 = Some (w7, Inr ())
           \<and> s3_objects w' (s3_bucket wk, mkey) = Some (Yaml (metadata_value revid f))))"
proof (intro conjI impI allI)
  fix c
  from content have "s3_objects w (s3_bucket wk, ckey) \<noteq> None" by simp
  with handle_revision_archived [OF run]
  show "S3Put (s3_bucket wk) ckey (Gzip c) \<notin> set (new_events w w')"
    by (rule archived_no_content_put)
next
  show "map_of (first_params (req_params_literal revid)) ''rvprop'' = Some (JStr ''ids|user|timestamp|comment'')"
    by (simp add: first_params_def req_params_literal_def update_conv')
next
  show "map_of (first_params (req_params_literal revid)) ''rvslots'' = None"
    by (simp add: first_params_def req_params_literal_def update_conv')
next
  assume ok: "res = Inr ()"
  from run [unfolded ok] show "\<exists>posts f w6 w7.
             new_events w w' =
               [S3Head (s3_bucket wk) mkey, S3Head (s3_bucket wk) ckey,
                HttpPost (api wk) (first_params (req_params_literal revid))]
               @ posts @ new_events w6 w7
               @ [S3Put (s3_bucket wk) mkey (Yaml (metadata_value revid f))]
           \<and> list_all is_post posts
           \<and> handle_revision ev depth wk pageid (f_parentid f) w6 = Some (w7, Inr ())
           \<and> s3_objects w' (s3_bucket wk, mkey) = Some (Yaml (metadata_value revid f))"
  proof (cases rule: handle_revision_cases)
    case root
    with nonroot show ?thesis by simp
  next
    case known
    from metadata_probe [OF known(2)] mkey no_metadata show ?thesis by simp
  next
    case (stored w1 w3 hc w5 g result f w6 w7)
    from fetch_stage [OF stored(2,3,4)] ckey content have hc: "hc = True" by auto
    note c = stored(3) [unfolded hc]
    from stored(4) hc have q: "gen_next ev (Created (api wk) (length (heap w1))) w3 = Some (w5, g, Inr result)"
      by simp
    from fetch_without_content [OF stored(2) c q] mkey ckey obtain posts where
      e5: "events w5 = events w @ [S3Head (s3_bucket wk) mkey, S3Head (s3_bucket wk) ckey,
               HttpPost (api wk) (first_params (req_params_literal revid))] @ posts"
      and posts: "list_all is_post posts"
      by auto
    from check_revision_content [OF stored(5)] hc have "f_content f = None" by simp
    with stored(6) have w6: "w6 = w5" by simp
    from handle_revision_archived [OF stored(7)] have e7: "events w7 = events w6 @ new_events w6 w7"
      by (rule archived_events)
    from metadata_put [OF stored(8) mkey]
    have e': "events w' = events w7 @ [S3Put (s3_bucket wk) mkey (Yaml (metadata_value revid f))]"
      and s': "s3_objects w' (s3_bucket wk, mkey) = Some (Yaml (metadata_value revid f))"
      by simp_all
    have "new_events w w' = [S3Head (s3_bucket wk) mkey, S3Head (s3_bucket wk) ckey,
                HttpPost (api wk) (first_params (req_params_literal revid))]
               @ posts @ new_events w6 w7
               @ [S3Put (s3_bucket wk) mkey (Yaml (metadata_value revid f))]"
      by (rule new_events_append) (simp add: e' e7 w6 e5)
    with posts stored(7) s' show ?thesis by blast
  qed simp_all
qed

theorem content_without_metadata_witness:
  "\<exists>w'. handle_revision ex_env (Suc (Suc 0)) ex_wiki (JInt 5) (JInt 1) ex_content_only = Some (w', Inr ())
     \<and> (\<forall>c. S3Put ''b'' ''x/page_00000005/rev_00000001_data.gz'' (Gzip c) \<notin> set (new_events ex_content_only w'))
     \<and> (\<exists>posts f w6 w7.
             new_events ex_content_only w' =
               [S3Head ''b'' ''x/page_00000005/rev_00000001.yaml'',
                S3Head ''b'' ''x/page_00000005/rev_00000001_data.gz'',
                HttpPost ''https://w/api.php'' (first_params (req_params_literal (JInt 1)))]
               @ posts @ new_events w6 w7
               @ [S3Put ''b'' ''x/page_00000005/rev_00000001.yaml'' (Yaml (metadata_value (JInt 1) f))]
           \<and> list_all is_post posts
           \<and> handle_revision ex_env (Suc 0) ex_wiki (JInt 5) (f_parentid f) w6 = Some (w7, Inr ())
           \<and> s3_objects w' (''b'', ''x/page_00000005/rev_00000001.yaml'') = Some (Yaml (metadata_value (JInt 1) f)))"
proof -
  from ex_run_content_only obtain w' where
    run: "handle_revision ex_env (Suc (Suc 0)) ex_wiki (JInt 5) (JInt 1) ex_content_only = Some (w', Inr ())"
    by blast
  have no_metadata: "s3_objects ex_content_only (s3_bucket ex_wiki, ''x/page_00000005/rev_00000001.yaml'') = None"
    and content: "s3_objects ex_content_only (s3_bucket ex_wiki, ''x/page_00000005/rev_00000001_data.gz'') = Some (Gzip ''text'')"
    by (simp_all add: ex_content_only_def)
  have nonroot: "\<not> py_eq (JInt 1) (JInt 0)"
    by (simp add: py_eq_def)
  from content_without_metadata [OF ex_keys_1 no_metadata content nonroot run] run
  show ?thesis by simp
qed

subsection \<open>The archiver: the order of the puts\<close>

lemma meta_writes_append: "meta_writes (xs @ ys) = meta_writes xs @ meta_writes ys"
  by (induction xs rule: meta_writes.induct) simp_all

lemma meta_writes_posts: "list_all is_post ps \<Longrightarrow> meta_writes ps = []"
  by (induction ps rule: meta_writes.induct) simp_all

lemma content_first_posts: "list_all is_post ps \<Longrightarrow> content_first (ps @ es) = content_first es"
  by (induction ps rule: content_first.induct) simp_all

lemma content_first_append:
  "content_first xs \<Longrightarrow> content_first ys \<Longrightarrow> content_first (xs @ ys)"
  by (induction xs rule: content_first.induct) (auto simp: list_ex_iff)

lemma metadata_key_form:
  "s3_key_for_revision_metadata wk p r = Inr k \<Longrightarrow> \<exists>stem. k = stem @ ''.yaml''"
  by (auto simp: s3_key_for_revision_metadata_def dest!: and_then_Inr)

lemma content_key_form:
  "s3_key_for_revision_content wk p r = Inr k \<Longrightarrow> \<exists>stem. k = stem @ ''_data.gz''"
  by (auto simp: s3_key_for_revision_content_def dest!: and_then_Inr)

lemma keys_differ:
  assumes "s3_key_for_revision_metadata wk p q = Inr k" "s3_key_for_revision_content wk p' r = Inr k'"
  shows "k \<noteq> k'"
proof
  assume "k = k'"
  moreover from metadata_key_form [OF assms(1)] have "last k = CHR ''l''" by auto
  moreover from content_key_form [OF assms(2)] have "last k' = CHR ''z''" by auto
  ultimately show False by simp
qed

lemma sibling_stem:
  "metadata_put_for b (stem @ ''_data.gz'') (S3Put b (stem @ ''.yaml'') (Yaml v))"
  by simp

lemma sibling_keys:
  assumes "s3_key_for_revision_metadata wk p r = Inr mkey" "s3_key_for_revision_content wk p r = Inr ckey"
  shows "metadata_put_for b ckey (S3Put b mkey (Yaml v))"
proof -
  from assms obtain x y where
    "mkey = (s3_prefix wk @ ''page_'' @ x @ ''/rev_'' @ y) @ ''.yaml''"
    "ckey = (s3_prefix wk @ ''page_'' @ x @ ''/rev_'' @ y) @ ''_data.gz''"
    by (auto simp: s3_key_for_revision_metadata_def s3_key_for_revision_content_def
        dest!: and_then_Inr)
  then show ?thesis
    by (simp only: sibling_stem)
qed

lemma chain_from_mono:
  "chain_from stop r ms \<Longrightarrow> (\<And>q. stop q \<Longrightarrow> stop' q) \<Longrightarrow> chain_from stop' r ms"
  by (induction ms arbitrary: r) (auto split: option.splits)


text \<open>The events of a call that got through to the metadata put.\<close>

lemma stored_events:
  assumes m: "s3_key_for_revision_metadata_exists ev wk p r w = (w1, Inr False)"
    and c: "s3_key_for_revision_content_exists ev wk p r (snd (alloc (req_params_literal r) w1)) = (w3, Inr hc)"
    and q: "gen_next ev (Created (api wk) (length (heap w1)))
              (if hc then w3 else request_content wk (length (heap w1)) w3) = Some (w5, g, rq)"
    and cp: "(case f_content f of None \<Rightarrow> (w5, Inr ())
             | Some c \<Rightarrow> s3_put_revision_content ev wk p r c w5) = (w6, res6)"
    and rec: "handle_revision ev d wk p q w6 = Some (w7, res7)"
    and mp: "s3_put_revision_metadata ev wk p r v w7 = (w', res)"
  obtains mkey ckey posts cput where
    "s3_key_for_revision_metadata wk p r = Inr mkey"
    "s3_key_for_revision_content wk p r = Inr ckey"
    "new_events w w' = [S3Head (s3_bucket wk) mkey, S3Head (s3_bucket wk) ckey] @ posts @ cput
        @ new_events w6 w7 @ [S3Put (s3_bucket wk) mkey (Yaml v)]"
    "list_all is_post posts"
    "cput = [] \<or> (\<exists>s. cput = [S3Put (s3_bucket wk) ckey (Gzip s)])"
    "\<And>x. x \<noteq> (s3_bucket wk, ckey) \<Longrightarrow> s3_objects w6 x = s3_objects w x"
proof -
  from fetch_stage [OF m c q] obtain mkey ckey posts where
    mkey: "s3_key_for_revision_metadata wk p r = Inr mkey"
    and ckey: "s3_key_for_revision_content wk p r = Inr ckey"
    and e5: "events w5 = events w @ [S3Head (s3_bucket wk) mkey, S3Head (s3_bucket wk) ckey] @ posts"
    and posts: "list_all is_post posts"
    and s5: "s3_objects w5 = s3_objects w"
    by blast
  from content_put [OF cp ckey] obtain cput where
    e6: "events w6 = events w5 @ cput"
    and cput: "cput = [] \<or> (\<exists>s. cput = [S3Put (s3_bucket wk) ckey (Gzip s)])"
    and s6: "\<And>x. x \<noteq> (s3_bucket wk, ckey) \<Longrightarrow> s3_objects w6 x = s3_objects w5 x"
    by (elim disjE exE conjE) auto
  from handle_revision_archived [OF rec] have e7: "events w7 = events w6 @ new_events w6 w7"
    by (rule archived_events)
  from metadata_put [OF mp mkey]
  have e': "events w' = events w7 @ [S3Put (s3_bucket wk) mkey (Yaml v)]" by simp
  have "new_events w w' = [S3Head (s3_bucket wk) mkey, S3Head (s3_bucket wk) ckey] @ posts @ cput
        @ new_events w6 w7 @ [S3Put (s3_bucket wk) mkey (Yaml v)]"
    by (rule new_events_append) (simp add: e' e7 e6 e5)
  with mkey ckey posts cput s6 s5 show thesis
    by (intro that [of mkey ckey posts cput]) simp_all
qed

lemma metadata_value_ids [simp]:
  "map_of (metadata_value r f) ''revid'' = Some r"
  "map_of (metadata_value r f) ''parentid'' = Some (f_parentid f)"
  by (simp_all add: metadata_value_def)

lemma handle_revision_chain:
  "handle_revision ev depth wk p r w = Some (w', Inr ()) \<Longrightarrow>
     chain_from (\<lambda>q. py_eq q (JInt 0)
                   \<or> (\<exists>k. s3_key_for_revision_metadata wk p q = Inr k
                          \<and> s3_objects w (s3_bucket wk, k) \<noteq> None))
       r (rev (meta_writes (new_events w w')))"
proof (induction depth arbitrary: r w w')
  case 0
  then show ?case by simp
next
  case (Suc d)
  from Suc.prems show ?case
  proof (cases rule: handle_revision_cases)
    case root
    then show ?thesis by (simp add: new_events_def)
  next
    case known
    from metadata_probe [OF known(2)] show ?thesis
      by (auto simp: new_events_def)
  next
    case (stored w1 w3 hc w5 g result f w6 w7)
    from stored(2,3,4,6,7,8) obtain mkey ckey posts cput where
      mkey: "s3_key_for_revision_metadata wk p r = Inr mkey"
      and ckey: "s3_key_for_revision_content wk p r = Inr ckey"
      and new: "new_events w w' = [S3Head (s3_bucket wk) mkey, S3Head (s3_bucket wk) ckey] @ posts
          @ cput @ new_events w6 w7 @ [S3Put (s3_bucket wk) mkey (Yaml (metadata_value r f))]"
      and posts: "list_all is_post posts"
      and cput: "cput = [] \<or> (\<exists>s. cput = [S3Put (s3_bucket wk) ckey (Gzip s)])"
      and s6: "\<And>x. x \<noteq> (s3_bucket wk, ckey) \<Longrightarrow> s3_objects w6 x = s3_objects w x"
      by (rule stored_events) blast
    from cput have mc: "meta_writes cput = []" by auto
    have mw: "meta_writes (new_events w w') = meta_writes (new_events w6 w7) @ [metadata_value r f]"
      by (simp add: new meta_writes_append meta_writes_posts [OF posts] mc)
    from stored(7) have "chain_from (\<lambda>q. py_eq q (JInt 0)
                   \<or> (\<exists>k. s3_key_for_revision_metadata wk p q = Inr k
                          \<and> s3_objects w6 (s3_bucket wk, k) \<noteq> None))
       (f_parentid f) (rev (meta_writes (new_events w6 w7)))"
      by (rule Suc.IH)
    then have "chain_from (\<lambda>q. py_eq q (JInt 0)
                   \<or> (\<exists>k. s3_key_for_revision_metadata wk p q = Inr k
                          \<and> s3_objects w (s3_bucket wk, k) \<noteq> None))
       (f_parentid f) (rev (meta_writes (new_events w6 w7)))"
    proof (rule chain_from_mono)
      fix q
      assume "py_eq q (JInt 0) \<or> (\<exists>k. s3_key_for_revision_metadata wk p q = Inr k
                          \<and> s3_objects w6 (s3_bucket wk, k) \<noteq> None)"
      then show "py_eq q (JInt 0) \<or> (\<exists>k. s3_key_for_revision_metadata wk p q = Inr k
                          \<and> s3_objects w (s3_bucket wk, k) \<noteq> None)"
        using s6 keys_differ [OF _ ckey] by (metis prod.inject)
    qed
    then show ?thesis by (simp add: mw)
  qed simp_all
qed

lemma handle_revision_content_first:
  "handle_revision ev depth wk p r w = Some (w', Inr ()) \<Longrightarrow> content_first (new_events w w')"
proof (induction depth arbitrary: r w w')
  case 0
  then show ?case by simp
next
  case (Suc d)
  from Suc.prems show ?case
  proof (cases rule: handle_revision_cases)
    case root
    then show ?thesis by (simp add: new_events_def)
  next
    case known
    from metadata_probe [OF known(2)] show ?thesis
      by (auto simp: new_events_def)
  next
    case (stored w1 w3 hc w5 g result f w6 w7)
    from stored(2,3,4,6,7,8) obtain mkey ckey posts cput where
      mkey: "s3_key_for_revision_metadata wk p r = Inr mkey"
      and ckey: "s3_key_for_revision_content wk p r = Inr ckey"
      and new: "new_events w w' = [S3Head (s3_bucket wk) mkey, S3Head (s3_bucket wk) ckey] @ posts
          @ cput @ new_events w6 w7 @ [S3Put (s3_bucket wk) mkey (Yaml (metadata_value r f))]"
      and posts: "list_all is_post posts"
      and cput: "cput = [] \<or> (\<exists>s. cput = [S3Put (s3_bucket wk) ckey (Gzip s)])"
      and s6: "\<And>x. x \<noteq> (s3_bucket wk, ckey) \<Longrightarrow> s3_objects w6 x = s3_objects w x"
      by (rule stored_events) blast
    let ?M = "S3Put (s3_bucket wk) mkey (Yaml (metadata_value r f))"
    from stored(7) have "content_first (new_events w6 w7)" by (rule Suc.IH)
    then have rest: "content_first (new_events w6 w7 @ [?M])"
      by (rule content_first_append) simp
    have sib: "metadata_put_for (s3_bucket wk) ckey ?M"
      using mkey ckey by (rule sibling_keys)
    from cput rest sib have "content_first (cput @ new_events w6 w7 @ [?M])"
      by (auto simp: list_ex_iff)
    then show ?thesis
      by (simp add: new content_first_posts [OF posts])
  qed simp_all
qed


lemma int_08d_2: "int_08d 2 = ''00000002''"
  by (simp add: int_08d_def zfill_def dec_nat.simps digit_char_def eval_nat_numeral)

lemma ex_keys_2:
  "s3_key_for_revision_metadata ex_wiki (JInt 5) (JInt 2) = Inr ''x/page_00000005/rev_00000002.yaml''"
  "s3_key_for_revision_content ex_wiki (JInt 5) (JInt 2) = Inr ''x/page_00000005/rev_00000002_data.gz''"
  by (simp_all add: s3_key_for_revision_metadata_def s3_key_for_revision_content_def and_then_def
      int_08d_2 int_08d_5 ex_wiki_def)

lemma ex_env_post_revids:
  "map_of d ''revids'' = Some (JInt r) \<Longrightarrow>
     http_post ex_env t ep (first_params d) = Inr (Response 200 (Some (ex_body r)))"
  by (simp add: ex_env_def first_params_def update_conv')

lemma ex_gen_next_revids:
  assumes "a < length (heap w)" "map_of (heap w ! a) ''revids'' = Some (JInt r)"
  shows "gen_next ex_env (Created ep a) w =
      Some (w\<lparr>heap := heap w @ [first_params (heap w ! a), [], first_params (heap w ! a)],
               events := events w @ [HttpPost ep (first_params (heap w ! a))]\<rparr>,
            Suspended ep (length (heap w)) (ex_body r),
            Inr (JObj [(''pages'', JObj [(''5'', ex_page r)])]))"
  unfolding gen_next_created [OF assms(1)] ex_env_post_revids [OF assms(2)] ex_body_def
  by (subst on_response_fragment) simp_all

lemma ex_run_chain:
  "\<exists>w'. handle_revision ex_env (Suc (Suc (Suc 0))) ex_wiki (JInt 5) (JInt 2) ex_empty = Some (w', Inr ())
     \<and> map (\<lambda>m. map_of m ''revid'') (meta_writes (new_events ex_empty w')) = [Some (JInt 1), Some (JInt 2)]"
  by (simp add: py_eq_def s3_key_for_revision_metadata_exists_def
      s3_key_for_revision_content_exists_def ex_keys_1 ex_keys_2 s3_key_exists_eq alloc_def
      ex_empty_def ex_gen_next_revids [where r = 2 and a = 0] ex_gen_next_revids [where r = 1 and a = "Suc (Suc (Suc (Suc 0)))"]
      ex_check s3_put_revision_metadata_def s3_put_revision_content_def put_object_def
      request_content_def dict_set_def req_params_literal_def update_conv' new_events_def
      metadata_value_def)

text \<open>
  C1. In every call that returns, the metadata values put on S3, read from the last
  put back to the first, are those of revid, of its parent, of its grandparent and so
  on, each naming the next as its \<^verbatim>\<open>parentid\<close>, down to a revision whose parent is 0
  or had its metadata in the bucket when the call began. So the metadata of a revision
  is put only after the metadata of each of its ancestors has been put or was there
  already: grandparent first, then parent, then revid. And every content put of the
  call is followed, later in the call, by the metadata put of the same revision.
\<close>

theorem ancestor_first_ordering:
  assumes run: "handle_revision ev depth wk pageid revid w = Some (w', Inr ())"
  shows "chain_from (\<lambda>q. py_eq q (JInt 0)
                        \<or> (\<exists>k. s3_key_for_revision_metadata wk pageid q = Inr k
                               \<and> s3_objects w (s3_bucket wk, k) \<noteq> None))
           revid (rev (meta_writes (new_events w w')))
     \<and> content_first (new_events w w')"
  using handle_revision_chain [OF run] handle_revision_content_first [OF run] by simp

theorem ancestor_first_ordering_witness:
  "\<exists>w'. handle_revision ex_env (Suc (Suc (Suc 0))) ex_wiki (JInt 5) (JInt 2) ex_empty = Some (w', Inr ())
     \<and> map (\<lambda>m. map_of m ''revid'') (meta_writes (new_events ex_empty w')) = [Some (JInt 1), Some (JInt 2)]
     \<and> chain_from (\<lambda>q. py_eq q (JInt 0)
                        \<or> (\<exists>k. s3_key_for_revision_metadata ex_wiki (JInt 5) q = Inr k
                               \<and> s3_objects ex_empty (s3_bucket ex_wiki, k) \<noteq> None))
           (JInt 2) (rev (meta_writes (new_events ex_empty w')))
     \<and> content_first (new_events ex_empty w')"
proof -
  from ex_run_chain obtain w' where
    run: "handle_revision ex_env (Suc (Suc (Suc 0))) ex_wiki (JInt 5) (JInt 2) ex_empty = Some (w', Inr ())"
    and writes: "map (\<lambda>m. map_of m ''revid'') (meta_writes (new_events ex_empty w')) = [Some (JInt 1), Some (JInt 2)]"
    by (elim exE conjE) (rule that)
  from ancestor_first_ordering [OF run] run writes show ?thesis
    by (intro exI [of _ w']) simp
qed

subsection \<open>The archiver: validation of the result\<close>

lemma check_revision_shape:
  assumes "check_revision wk p r need result = Inr f"
  shows "single_revid_shape p r result"
  using assms unfolding check_revision_def single_revid_shape_def
  by (auto dest!: and_then_Inr py_assert_Inr)

lemma py_assert_simps [simp]:
  "py_assert (Inr True) k = k"
  "py_assert (Inr False) k = Inl AssertionError"
  "py_assert (Inl e) k = Inl e"
  by (simp_all add: py_assert_def)

lemma and_then_simps [simp]:
  "and_then (Inr x) k = k x"
  "and_then (Inl e) k = Inl e"
  by (simp_all add: and_then_def)

lemma py_assert_if: "py_assert (Inr b) k = (if b then k else Inl AssertionError)"
  by (simp add: py_assert_def)

lemma typed_mismatch:
  assumes typed: "api_typed p result" and mismatch: "\<not> single_revid_shape p r result"
  shows "check_revision wk p r need result = Inl AssertionError"
proof -
  from typed obtain ro where ro: "result = JObj ro"
    by (cases result) (simp_all add: api_typed_def)
  show ?thesis
  proof (cases "map_of ro ''pages''")
    case None
    then show ?thesis by (simp add: check_revision_def ro py_in_obj del: py_in.simps)
  next
    case (Some pages)
    with typed ro obtain po where po: "pages = JObj po"
      by (cases pages) (simp_all add: api_typed_def)
    show ?thesis
    proof (cases "map_of po (py_str p)")
      case None
      with Some po show ?thesis
        by (simp add: check_revision_def ro py_in_obj py_getitem_def del: py_in.simps)
    next
      case page: (Some page)
      with typed ro Some po obtain pg where pg: "page = JObj pg"
        by (cases page) (simp_all add: api_typed_def)
      note S = check_revision_def single_revid_shape_def ro po pg Some page py_in_obj
        py_getitem_def py_assert_if
      show ?thesis
      proof (cases "length (items po) = 1")
        case False
        then show ?thesis by (simp add: S del: py_in.simps)
      next
        case one_page: True
        show ?thesis
        proof (cases "map_of pg ''pageid''")
          case None
          then show ?thesis by (simp add: S del: py_in.simps)
        next
          case pid: (Some pid)
          show ?thesis
          proof (cases "py_eq pid p")
            case False
            with pid show ?thesis by (simp add: S del: py_in.simps)
          next
            case pid_ok: True
            show ?thesis
            proof (cases "map_of pg ''title'' = None \<or> map_of pg ''fullurl'' = None
                \<or> map_of pg ''revisions'' = None")
              case True
              then show ?thesis by (auto simp: S simp del: py_in.simps)
            next
              case False
              then obtain title fullurl revisions where
                fields: "map_of pg ''title'' = Some title" "map_of pg ''fullurl'' = Some fullurl"
                  "map_of pg ''revisions'' = Some revisions"
                by auto
              with typed ro Some po page pg obtain rs where
                rs: "revisions = JArr rs" and objs: "list_all is_obj rs"
                by (cases revisions) (simp_all add: api_typed_def)
              show ?thesis
              proof (cases rs)
                case Nil
                with fields rs pid show ?thesis by (simp add: S del: py_in.simps)
              next
                case (Cons rev more)
                show ?thesis
                proof (cases more)
                  case (Cons x xs)
                  with \<open>rs = rev # more\<close> fields rs pid show ?thesis
                    by (simp add: S del: py_in.simps)
                next
                  case Nil
                  with \<open>rs = rev # more\<close> have one: "rs = [rev]" by simp
                  with objs obtain rv where rv: "rev = JObj rv" by (cases rev) simp_all
                  show ?thesis
                  proof (cases "map_of rv ''revid''")
                    case None
                    with fields rs pid one rv pid_ok one_page show ?thesis
                      by (simp add: S py_getitem0_def seq_index_def del: py_in.simps)
                  next
                    case rid: (Some rid)
                    show ?thesis
                    proof (cases "py_eq rid r")
                      case False
                      with rid fields rs pid one rv pid_ok one_page show ?thesis
                        by (simp add: S py_getitem0_def seq_index_def del: py_in.simps)
                    next
                      case True
                      with rid fields rs pid one rv pid_ok one_page have "single_revid_shape p r result"
                        by (simp add: S py_getitem0_def seq_index_def del: py_in.simps)
                      with mismatch show ?thesis by simp
                    qed
                  qed
                qed
              qed
            qed
          qed
        qed
      qed
    qed
  qed
qed


lemma gen_next_fragment:
  assumes "a < length (heap w)"
    and "http_post ev (length (events w)) ep (first_params (heap w ! a))
           = Inr (Response st (Some (JObj kvs)))"
    and "\<not> (400 \<le> st \<and> st < 600)"
    and "map_of kvs ''error'' = None" "map_of kvs ''warnings'' = None"
    and "map_of kvs ''query'' = Some q"
  shows "gen_next ev (Created ep a) w =
      Some (w\<lparr>heap := heap w @ [first_params (heap w ! a), [], first_params (heap w ! a)],
               events := events w @ [HttpPost ep (first_params (heap w ! a))]\<rparr>,
            Suspended ep (length (heap w)) (JObj kvs), Inr q)"
  unfolding gen_next_created [OF assms(1)] assms(2)
  by (subst on_response_fragment) (simp_all add: assms)

lemma filter_put_posts: "list_all is_post ps \<Longrightarrow> filter is_put ps = []"
  by (induction ps rule: meta_writes.induct) simp_all

text \<open>
  C5. Take a call that found no metadata for (pageid, revid), probed the content, and
  got a result from its single-revid fetch. If the result is not of the single-revid
  shape (exactly one page, keyed and numbered with the requested pageid, with exactly
  one revision, numbered with the requested revid), the call raises the exception of
  the validation in the world right after the fetch: no put has been made and the
  bucket is unchanged. The exception is AssertionError whenever the result, its pages
  and the page are JSON objects and the revisions are an array of objects; on JSON of
  other types Python may raise TypeError, KeyError or IndexError instead.
\<close>

theorem single_revid_validation:
  assumes nonroot: "\<not> py_eq revid (JInt 0)"
    and m: "s3_key_for_revision_metadata_exists ev wk pageid revid w = (w1, Inr False)"
    and c: "s3_key_for_revision_content_exists ev wk pageid revid
              (snd (alloc (req_params_literal revid) w1)) = (w3, Inr hc)"
    and q: "gen_next ev (Created (api wk) (length (heap w1)))
              (if hc then w3 else request_content wk (length (heap w1)) w3)
              = Some (w5, g, Inr result)"
    and mismatch: "\<not> single_revid_shape pageid revid result"
  shows "\<exists>e. handle_revision ev (Suc depth) wk pageid revid w = Some (w5, Inl e)
           \<and> check_revision wk pageid revid (\<not> hc) result = Inl e
           \<and> filter is_put (new_events w w5) = []
           \<and> s3_objects w5 = s3_objects w
           \<and> (api_typed pageid result \<longrightarrow> e = AssertionError)"
proof -
  from mismatch check_revision_shape obtain e where
    e: "check_revision wk pageid revid (\<not> hc) result = Inl e"
    by (cases "check_revision wk pageid revid (\<not> hc) result") auto
  from c have c': "s3_key_for_revision_content_exists ev wk pageid revid
          (w1\<lparr>heap := heap w1 @ [req_params_literal revid]\<rparr>) = (w3, Inr hc)"
    by (simp add: alloc_def)
  from nonroot m c' q e have run: "handle_revision ev (Suc depth) wk pageid revid w = Some (w5, Inl e)"
    by (auto simp: alloc_def Let_def split: if_splits)
  from fetch_stage [OF m c q] obtain mkey ckey posts where
    "events w5 = events w @ [S3Head (s3_bucket wk) mkey, S3Head (s3_bucket wk) ckey] @ posts"
    "list_all is_post posts" and store: "s3_objects w5 = s3_objects w"
    by blast
  then have "new_events w w5 = [S3Head (s3_bucket wk) mkey, S3Head (s3_bucket wk) ckey] @ posts"
    and "filter is_put posts = []"
    by (simp_all add: new_events_def filter_put_posts)
  then have puts: "filter is_put (new_events w w5) = []" by simp
  from typed_mismatch [OF _ mismatch, of wk "\<not> hc"] e
  have "api_typed pageid result \<longrightarrow> e = AssertionError" by auto
  with run e puts store show ?thesis by blast
qed

lemma ex_stale_faults [simp]:
  "head_fault ex_stale_env t b k = None" "put_fault ex_stale_env t b k = None"
  by (simp_all add: ex_stale_env_def)

theorem single_revid_validation_witness:
  "\<exists>w5. handle_revision ex_stale_env (Suc 0) ex_wiki (JInt 5) (JInt 1) ex_content_only
          = Some (w5, Inl AssertionError)
     \<and> filter is_put (new_events ex_content_only w5) = []
     \<and> s3_objects w5 = s3_objects ex_content_only"
proof -
  let ?w1 = "log_event (S3Head ''b'' ''x/page_00000005/rev_00000001.yaml'') ex_content_only"
  let ?w3 = "log_event (S3Head ''b'' ''x/page_00000005/rev_00000001_data.gz'')
               (snd (alloc (req_params_literal (JInt 1)) ?w1))"
  let ?result = "JObj [(''pages'', JObj [(''5'', ex_page 7)])]"
  have nonroot: "\<not> py_eq (JInt 1) (JInt 0)"
    by (simp add: py_eq_def)
  have m: "s3_key_for_revision_metadata_exists ex_stale_env ex_wiki (JInt 5) (JInt 1) ex_content_only
             = (?w1, Inr False)"
    by (simp add: s3_key_for_revision_metadata_exists_def ex_keys_1 s3_key_exists_eq
        ex_content_only_def)
  have c: "s3_key_for_revision_content_exists ex_stale_env ex_wiki (JInt 5) (JInt 1)
             (snd (alloc (req_params_literal (JInt 1)) ?w1)) = (?w3, Inr True)"
    by (simp add: s3_key_for_revision_content_exists_def ex_keys_1 s3_key_exists_eq
        ex_content_only_def alloc_def)
  have valid: "length (heap ?w1) < length (heap ?w3)"
    by (simp add: alloc_def)
  have post: "http_post ex_stale_env (length (events ?w3)) (api ex_wiki)
                (first_params (heap ?w3 ! length (heap ?w1)))
              = Inr (Response 200 (Some (JObj [(''query'', ?result)])))"
    by (simp add: ex_stale_env_def ex_body_def)
  from gen_next_fragment [OF valid post] obtain w5 g where
    q: "gen_next ex_stale_env (Created (api ex_wiki) (length (heap ?w1)))
          (if True then ?w3 else request_content ex_wiki (length (heap ?w1)) ?w3)
        = Some (w5, g, Inr ?result)"
    by simp
  have mismatch: "\<not> single_revid_shape (JInt 5) (JInt 1) ?result"
    by (simp add: single_revid_shape_def py_getitem_def py_getitem0_def seq_index_def items_def
        dec_int_5 ex_page_def ex_revision_def py_eq_def)
  have typed: "api_typed (JInt 5) ?result"
    by (simp add: api_typed_def dec_int_5 ex_page_def ex_revision_def)
  from single_revid_validation [OF nonroot m c q mismatch, of 0] typed show ?thesis
    by auto
qed

end
